theory Spec2Isabelle
  imports Main
begin

section \<open>The call-session engine of AudioCallApp.tsx\<close>

text \<open>
  The component \<^verbatim>\<open>AudioCallApp\<close> (src/components/AudioCallApp.tsx) is a React
  function component: its state lives in \<^verbatim>\<open>useState\<close> cells and \<^verbatim>\<open>useRef\<close> boxes, its
  operations are callbacks, and everything else happens in event handlers that the
  browser calls later (socket events, timers, promise continuations).

  The embedding keeps that shape.
  \<^item> The \<^verbatim>\<open>useState\<close> cells and the refs are the fields of the record \<open>App\<close>.
  \<^item> Objects the refs point to (sockets, media streams, recorders) live in stores
    (lists); a ref holds an index, so an object that a ref no longer points to still
    exists and can still fire its events, as in the browser.
  \<^item> Every handler is a function from \<open>App\<close> to the new \<open>App\<close> and the list of
    effects (\<open>Action\<close>) it performs, in program order.
  \<^item> An \<^verbatim>\<open>await\<close>, a \<^verbatim>\<open>setTimeout\<close>, a promise callback or a listener splits a function:
    the part after the split is a \<open>Task\<close> waiting in \<open>pending\<close>, run by the event that
    settles it.
  \<^item> A closure reads the \<^verbatim>\<open>callState\<close> of the render that created it.  The value a closure
    sees is carried explicitly: in the socket (its handlers), in the recorder (its
    \<^verbatim>\<open>ondataavailable\<close>), in a task, and in \<open>connect_cs\<close> for the memoised
    \<^verbatim>\<open>connectToLiveAPI\<close>.
  \<^item> What the browser decides (whether a constructor throws, whether base64 text is
    valid) is the parameter \<open>Browser\<close>; what arrives from outside is an \<open>Event\<close>.

  Not modelled: the rendering, the API-key form, the one-second timer that rewrites
  \<^verbatim>\<open>duration\<close>, and the text of the base64 encoding (a sent chunk carries its bytes).
  Line numbers refer to AudioCallApp.tsx.  The repository holds a second, earlier
  revision of the same component, without the permission query and without the recorder;
  its \<^verbatim>\<open>toggleMute\<close> and \<^verbatim>\<open>toggleSpeaker\<close> are the same text.
\<close>

subsection \<open>Data model\<close>

datatype Status = Idle | Connecting | Connected | Disconnected

record CallState =
  isActive :: bool
  startTime :: "int option"
  duration :: string
  isMuted :: bool
  speakerEnabled :: bool
  status :: Status

datatype Speaker = AI | User

record ConversationMessage =
  speaker :: Speaker
  message :: string
  timestamp :: int

text \<open>WebSocket.readyState.\<close>

datatype ReadyState = CONNECTING | OPEN | CLOSING | CLOSED

text \<open>
  A socket created by \<^verbatim>\<open>connectToLiveAPI\<close>.  Its four handlers are closures of that call;
  \<open>ws_closure\<close> is the \<^verbatim>\<open>callState\<close> they read.
\<close>

record WebSocket =
  readyState :: ReadyState
  ws_closure :: CallState

datatype TrackKind = AudioTrack | VideoTrack

record MediaStreamTrack =
  kind :: TrackKind
  enabled :: bool
  ended :: bool

type_synonym MediaStream = "MediaStreamTrack list"

type_synonym Blob = "nat list"

datatype RecorderState = Inactive | Recording

text \<open>
  A MediaRecorder; \<open>rec_closure\<close> is the \<^verbatim>\<open>callState\<close> its \<^verbatim>\<open>ondataavailable\<close> reads
  (the one of the socket handler that created it).
\<close>

record MediaRecorder =
  rec_stream :: nat
  rec_state :: RecorderState
  rec_closure :: CallState

text \<open>
  Inbound frames.  A binary frame is a blob.  A text frame either fails \<^verbatim>\<open>JSON.parse\<close>,
  or parses to \<^verbatim>\<open>null\<close> (reading a property of it throws), or parses to a value whose
  properties can be read: of those the handler looks at \<^verbatim>\<open>serverContent.modelTurn.parts\<close>
  (absent, or a list of parts) and at \<^verbatim>\<open>setupComplete\<close> (as a condition).  A part has an
  optional \<^verbatim>\<open>text\<close> (field \<open>text_of\<close>) and an optional \<^verbatim>\<open>inlineData\<close> with an optional
  \<^verbatim>\<open>mimeType\<close> and its base64 \<^verbatim>\<open>data\<close> (field \<open>payload\<close>).  Lists of parts whose
  elements are not objects are outside the model.
\<close>

record InlineData =
  mimeType :: "string option"
  payload :: string

record Part =
  text_of :: "string option"
  inlineData :: "InlineData option"

record ServerMessage =
  parts :: "Part list option"
  setupComplete :: bool

datatype Frame = BinaryFrame Blob | Malformed | JsonNull | Json ServerMessage

text \<open>Outbound messages.\<close>

datatype ClientMessage = Setup | RealtimeInput Blob

text \<open>The notifications (\<^verbatim>\<open>toast\<close>), by title.\<close>

datatype Toast =
    PermissaoNegada | AcessoNegado | ErroDeMicrofone | Erro
  | Conectado | ErroDeConexao | ChamadaEncerrada

text \<open>
  Effects, in program order: a console line (by its fixed text), a notification, a
  message handed to an open socket, \<^verbatim>\<open>close()\<close> on a socket, \<^verbatim>\<open>play()\<close> on an audio element
  built from a blob of the given type, \<^verbatim>\<open>start(0)\<close> on a decoded buffer source.
\<close>

datatype Action =
    Console string
  | Notify Toast
  | Send nat ClientMessage
  | Close nat
  | AudioPlay string
  | BufferStart

text \<open>
  Suspended continuations, by what they wait for: the permission query and
  \<^verbatim>\<open>getUserMedia\<close> of \<^verbatim>\<open>startCall\<close>, the 100 ms timer of \<^verbatim>\<open>onopen\<close>, the 500 ms timer of the
  \<^verbatim>\<open>setupComplete\<close> branch, \<^verbatim>\<open>arrayBuffer()\<close> of a chunk in \<^verbatim>\<open>sendAudioData\<close>, the file reader
  of a binary frame, \<^verbatim>\<open>decodeAudioData\<close>, the end of a buffer source, the promise of
  \<^verbatim>\<open>play()\<close>, the end of an audio element.  The \<open>CallState\<close> a task carries is the one its
  closure reads.
\<close>

datatype Task =
    PermissionQuery CallState
  | GetUserMedia CallState
  | SetupTimeout
  | StreamingTimeout CallState
  | ArrayBuffer Blob
  | FileReaderLoad CallState
  | DecodeAudioData
  | BufferSourcePlaying
  | PlayPromise string
  | AudioElementPlaying

record App =
  callState :: CallState
  showCallModal :: bool
  conversation :: "ConversationMessage list"
  isRecording :: bool
  wsRef :: "nat option"
  mediaStreamRef :: "nat option"
  mediaRecorderRef :: "nat option"
  connect_cs :: CallState
  sockets :: "WebSocket list"
  streams :: "MediaStream list"
  recorders :: "MediaRecorder list"
  pending :: "Task list"

definition idleCallState :: CallState where
  "idleCallState =
     \<lparr>isActive = False, startTime = None, duration = ''00:00'', isMuted = False,
      speakerEnabled = True, status = Idle\<rparr>"

text \<open>The component as mounted (lines 26-43).\<close>

definition init :: App where
  "init =
     \<lparr>callState = idleCallState, showCallModal = False, conversation = [],
      isRecording = False, wsRef = None, mediaStreamRef = None, mediaRecorderRef = None,
      connect_cs = idleCallState, sockets = [], streams = [], recorders = [],
      pending = []\<rparr>"

subsection \<open>The browser\<close>

text \<open>
  What one candidate type does inside the loop of \<^verbatim>\<open>playAudioResponse\<close>, up to the point
  where \<^verbatim>\<open>play()\<close> returns: \<^verbatim>\<open>new Blob\<close> or \<^verbatim>\<open>createObjectURL\<close> throws (before \<^verbatim>\<open>audioUrl\<close>
  is assigned), \<^verbatim>\<open>new Audio\<close> throws or \<^verbatim>\<open>play()\<close> throws (after it is assigned), or
  \<^verbatim>\<open>play()\<close> returns a promise or (old browsers) nothing.
\<close>

datatype PlayOutcome =
    BlobThrows | AudioThrows | PlayThrows | PlayReturnsPromise | PlayReturnsNothing

record Browser =
  atob_ok :: "string \<Rightarrow> bool"
  play_outcome :: "string \<Rightarrow> PlayOutcome"
  websocket_throws :: bool

subsection \<open>Store access\<close>

definition map_at :: "nat \<Rightarrow> ('a \<Rightarrow> 'a) \<Rightarrow> 'a list \<Rightarrow> 'a list" where
  "map_at i f xs = (if i < length xs then xs[i := f (xs ! i)] else xs)"

definition remove_at :: "nat \<Rightarrow> 'a list \<Rightarrow> 'a list" where
  "remove_at i xs = take i xs @ drop (Suc i) xs"

definition lookup :: "'a list \<Rightarrow> nat \<Rightarrow> 'a option" where
  "lookup xs i = (if i < length xs then Some (xs ! i) else None)"

text \<open>\<^verbatim>\<open>wsRef.current?.readyState\<close>: \<open>None\<close> when the ref is null.\<close>

definition ws_readyState :: "App \<Rightarrow> ReadyState option" where
  "ws_readyState s =
     (case wsRef s of
        None \<Rightarrow> None
      | Some i \<Rightarrow> map_option readyState (lookup (sockets s) i))"

text \<open>
  \<^verbatim>\<open>WebSocket.close()\<close>: a connecting or open socket starts closing; on a closing or closed
  one the call does nothing.
\<close>

definition ws_close :: "WebSocket \<Rightarrow> WebSocket" where
  "ws_close w =
     (if readyState w = CONNECTING \<or> readyState w = OPEN
      then w\<lparr>readyState := CLOSING\<rparr> else w)"

text \<open>\<^verbatim>\<open>part.text\<close> as a condition: a non-empty string.\<close>

definition hasText :: "Part \<Rightarrow> bool" where
  "hasText p = (case text_of p of None \<Rightarrow> False | Some t \<Rightarrow> t \<noteq> [])"

text \<open>\<^verbatim>\<open>part.inlineData?.mimeType?.startsWith('audio/')\<close>.\<close>

definition isAudio :: "Part \<Rightarrow> bool" where
  "isAudio p =
     (case inlineData p of
        None \<Rightarrow> False
      | Some d \<Rightarrow> (case mimeType d of None \<Rightarrow> False | Some m \<Rightarrow> take 6 m = ''audio/''))"

subsection \<open>endCall (lines 275-315)\<close>

definition endCall :: "App \<Rightarrow> App \<times> Action list" where
  "endCall s =
     (let (s1, a1) =
            (case wsRef s of
               None \<Rightarrow> (s, [])
             | Some i \<Rightarrow> (s\<lparr>sockets := map_at i ws_close (sockets s), wsRef := None\<rparr>, [Close i]));
          s2 =
            (case mediaRecorderRef s1 of
               None \<Rightarrow> s1
             | Some r \<Rightarrow>
                 s1\<lparr>recorders :=
                      map_at r (\<lambda>m. if rec_state m \<noteq> Inactive then m\<lparr>rec_state := Inactive\<rparr> else m)
                        (recorders s1),
                    mediaRecorderRef := None\<rparr>);
          s3 =
            (case mediaStreamRef s2 of
               None \<Rightarrow> s2
             | Some m \<Rightarrow>
                 s2\<lparr>streams := map_at m (map (\<lambda>t. t\<lparr>ended := True\<rparr>)) (streams s2),
                    mediaStreamRef := None\<rparr>)
      in (s3\<lparr>callState := idleCallState, showCallModal := False, conversation := [],
              isRecording := False\<rparr>,
          a1 @ [Notify ChamadaEncerrada]))"

subsection \<open>playAudioResponse (lines 317-369)\<close>

text \<open>
  The loop over \<^verbatim>\<open>supportedTypes\<close>, with the variable \<^verbatim>\<open>audioUrl\<close> threaded through (the type
  stands for the URL of the blob of that type).  A candidate that throws is caught and
  the loop continues; a candidate whose \<^verbatim>\<open>play()\<close> returns leaves \<^verbatim>\<open>audioUrl\<close> set, so the
  \<^verbatim>\<open>ended\<close> listener is added and the loop breaks.  The result is the final \<^verbatim>\<open>audioUrl\<close>,
  the effects and the continuations left behind.
\<close>

fun tryTypes ::
  "Browser \<Rightarrow> string list \<Rightarrow> string option \<Rightarrow> string option \<times> Action list \<times> Task list" where
  "tryTypes b [] audioUrl = (audioUrl, [], [])"
| "tryTypes b (t # ts) audioUrl =
     (case play_outcome b t of
        BlobThrows \<Rightarrow>
          (let (u, a, k) = tryTypes b ts audioUrl
           in (u, Console ''Type not supported:'' # a, k))
      | AudioThrows \<Rightarrow>
          (let (u, a, k) = tryTypes b ts (Some t)
           in (u, Console ''Type not supported:'' # a, k))
      | PlayThrows \<Rightarrow>
          (let (u, a, k) = tryTypes b ts (Some t)
           in (u, AudioPlay t # Console ''Type not supported:'' # a, k))
      | PlayReturnsPromise \<Rightarrow> (Some t, [AudioPlay t], [PlayPromise t, AudioElementPlaying])
      | PlayReturnsNothing \<Rightarrow> (Some t, [AudioPlay t], [AudioElementPlaying]))"

definition supportedTypes :: "string \<Rightarrow> string list" where
  "supportedTypes mime = [''audio/mp3'', ''audio/wav'', ''audio/ogg'', mime]"

definition playAudioResponse :: "Browser \<Rightarrow> string \<Rightarrow> string \<Rightarrow> App \<Rightarrow> App \<times> Action list" where
  "playAudioResponse b base64Data mime s =
     (if \<not> atob_ok b base64Data then (s, [Console ''Error playing audio response:''])
      else
        (let (audioUrl, a, k) = tryTypes b (supportedTypes mime) None
         in (s\<lparr>pending := pending s @ k\<rparr>,
             a @ (if audioUrl = None then [Console ''No supported audio format found''] else []))))"

subsection \<open>sendAudioData (lines 417-442)\<close>

text \<open>Up to \<^verbatim>\<open>await audioBlob.arrayBuffer()\<close>.\<close>

definition sendAudioData :: "Blob \<Rightarrow> App \<Rightarrow> App \<times> Action list" where
  "sendAudioData audioBlob s =
     (if ws_readyState s \<noteq> Some OPEN
      then (s, [Console ''WebSocket not ready for sending audio''])
      else (s\<lparr>pending := pending s @ [ArrayBuffer audioBlob]\<rparr>, []))"

text \<open>
  After the await.  \<open>ok\<close> is false when reading or encoding the blob throws.
  \<^verbatim>\<open>wsRef.current.send\<close> throws on a null ref and on a connecting socket (both caught
  and logged); on a closing or closed socket \<^verbatim>\<open>send\<close> returns and nothing is transmitted.
\<close>

definition sendAudioData_resume :: "Blob \<Rightarrow> bool \<Rightarrow> App \<Rightarrow> App \<times> Action list" where
  "sendAudioData_resume audioBlob ok s =
     (if \<not> ok then (s, [Console ''Error sending audio data:''])
      else
        (case wsRef s of
           None \<Rightarrow> (s, [Console ''Error sending audio data:''])
         | Some i \<Rightarrow>
             (case ws_readyState s of
                Some OPEN \<Rightarrow>
                  (s, [Send i (RealtimeInput audioBlob), Console ''Audio data sent successfully''])
              | Some CLOSING \<Rightarrow> (s, [Console ''Audio data sent successfully''])
              | Some CLOSED \<Rightarrow> (s, [Console ''Audio data sent successfully''])
              | _ \<Rightarrow> (s, [Console ''Error sending audio data:'']))))"

subsection \<open>The recorder's ondataavailable (lines 230-235)\<close>

definition ondataavailable :: "CallState \<Rightarrow> Blob \<Rightarrow> App \<Rightarrow> App \<times> Action list" where
  "ondataavailable cs blob s =
     (if length blob > 0 \<and> ws_readyState s = Some OPEN \<and> \<not> isMuted cs
      then (let (s', a) = sendAudioData blob s
            in (s', Console ''Sending audio data, size:'' # a))
      else (s, []))"

subsection \<open>The socket handlers of connectToLiveAPI (lines 96-273)\<close>

text \<open>\<^verbatim>\<open>onopen\<close> (lines 102-140); the setup message waits for a 100 ms timer.\<close>

definition ws_onopen :: "App \<Rightarrow> App \<times> Action list" where
  "ws_onopen s =
     (s\<lparr>callState := (callState s)\<lparr>status := Connected\<rparr>,
        pending := pending s @ [SetupTimeout]\<rparr>,
      [Console ''WebSocket connected'', Notify Conectado])"

text \<open>The timer callback of \<^verbatim>\<open>onopen\<close> (lines 107-134).\<close>

definition setupTimeout :: "App \<Rightarrow> App \<times> Action list" where
  "setupTimeout s =
     (case wsRef s of
        None \<Rightarrow> (s, [])
      | Some i \<Rightarrow>
          if ws_readyState s = Some OPEN
          then (s, [Console ''Sending setup message'', Send i Setup])
          else (s, []))"

text \<open>
  The \<^verbatim>\<open>serverContent\<close> branch of \<^verbatim>\<open>onmessage\<close> (lines 193-213): the first part with text
  becomes a transcript entry, the first inline part whose type starts with
  \<^verbatim>\<open>audio/\<close> is played when the handler's \<^verbatim>\<open>callState.speakerEnabled\<close> holds.
\<close>

definition findAudio :: "Part list \<Rightarrow> (string \<times> string) option" where
  "findAudio ps =
     (case find isAudio ps of
        None \<Rightarrow> None
      | Some audioPart \<Rightarrow>
          (case inlineData audioPart of
             None \<Rightarrow> None
           | Some d \<Rightarrow> (case mimeType d of None \<Rightarrow> None | Some m \<Rightarrow> Some (payload d, m))))"

definition onServerContent ::
  "Browser \<Rightarrow> CallState \<Rightarrow> Part list \<Rightarrow> int \<Rightarrow> App \<Rightarrow> App \<times> Action list" where
  "onServerContent b cs ps now s =
     (let (s1, a1) =
            (case find hasText ps of
               None \<Rightarrow> (s, [])
             | Some textPart \<Rightarrow>
                 (s\<lparr>conversation := conversation s @
                      [\<lparr>speaker = AI,
                        message = (case text_of textPart of None \<Rightarrow> [] | Some t \<Rightarrow> t),
                        timestamp = now\<rparr>]\<rparr>,
                  [Console ''Adding AI message:'']));
          (s2, a2) =
            (case findAudio ps of
               None \<Rightarrow> (s1, [])
             | Some (base64Data, mime) \<Rightarrow>
                 if speakerEnabled cs
                 then (let (s', a) = playAudioResponse b base64Data mime s1
                       in (s', Console ''Playing audio response'' # a))
                 else (s1, []))
      in (s2, a1 @ a2))"

text \<open>
  The \<^verbatim>\<open>setupComplete\<close> branch (lines 215-247); the recorder is created by a 500 ms timer.
\<close>

definition onSetupComplete :: "CallState \<Rightarrow> App \<Rightarrow> App \<times> Action list" where
  "onSetupComplete cs s =
     (let s1 = s\<lparr>callState := (callState s)\<lparr>status := Connected\<rparr>\<rparr>
      in if mediaStreamRef s1 \<noteq> None \<and> wsRef s1 \<noteq> None
         then (s1\<lparr>pending := pending s1 @ [StreamingTimeout cs]\<rparr>, [Console ''Setup completed''])
         else (s1, [Console ''Setup completed'']))"

text \<open>
  The timer callback of the \<^verbatim>\<open>setupComplete\<close> branch (lines 221-245).  \<open>ok\<close> is false when
  \<^verbatim>\<open>new MediaRecorder\<close> or \<^verbatim>\<open>start\<close> throws.
\<close>

definition streamingTimeout :: "CallState \<Rightarrow> bool \<Rightarrow> App \<Rightarrow> App \<times> Action list" where
  "streamingTimeout cs ok s =
     (case mediaStreamRef s of
        None \<Rightarrow> (s, [])
      | Some m \<Rightarrow>
          if ws_readyState s = Some OPEN
          then
            (if ok
             then (s\<lparr>recorders := recorders s @
                       [\<lparr>rec_stream = m, rec_state = Recording, rec_closure = cs\<rparr>],
                     mediaRecorderRef := Some (length (recorders s))\<rparr>,
                   [Console ''Setting up audio streaming...'',
                    Console ''Audio streaming setup completed''])
             else (s, [Console ''Setting up audio streaming...'',
                       Console ''Error setting up audio streaming:'']))
          else (s, []))"

text \<open>\<^verbatim>\<open>onmessage\<close> (lines 142-253).\<close>

definition ws_onmessage ::
  "Browser \<Rightarrow> CallState \<Rightarrow> Frame \<Rightarrow> int \<Rightarrow> App \<Rightarrow> App \<times> Action list" where
  "ws_onmessage b cs frame now s =
     (case frame of
        BinaryFrame blob \<Rightarrow>
          (s\<lparr>pending := pending s @ [FileReaderLoad cs]\<rparr>,
           [Console ''Received WebSocket message:'', Console ''Received binary audio data, size:''])
      | Malformed \<Rightarrow>
          (s, [Console ''Received WebSocket message:'',
               Console ''Error handling WebSocket message:'', Console ''Raw event data:''])
      | JsonNull \<Rightarrow>
          (s, [Console ''Received WebSocket message:'', Console ''Parsed JSON data:'',
               Console ''Error handling WebSocket message:'', Console ''Raw event data:''])
      | Json d \<Rightarrow>
          (let (s1, a1) =
                 (case parts d of None \<Rightarrow> (s, []) | Some ps \<Rightarrow> onServerContent b cs ps now s);
               (s2, a2) = (if setupComplete d then onSetupComplete cs s1 else (s1, []))
           in (s2, [Console ''Received WebSocket message:'', Console ''Parsed JSON data:'']
                     @ a1 @ a2)))"

text \<open>\<^verbatim>\<open>onclose\<close> (lines 255-258) and \<^verbatim>\<open>onerror\<close> (lines 260-268).\<close>

definition ws_onclose :: "App \<Rightarrow> App \<times> Action list" where
  "ws_onclose s =
     (s\<lparr>callState := (callState s)\<lparr>status := Disconnected\<rparr>\<rparr>, [Console ''WebSocket closed''])"

definition ws_onerror :: "App \<Rightarrow> App \<times> Action list" where
  "ws_onerror s =
     (s\<lparr>callState := (callState s)\<lparr>status := Disconnected\<rparr>\<rparr>,
      [Console ''WebSocket error:'', Notify ErroDeConexao])"

text \<open>
  The body of \<^verbatim>\<open>connectToLiveAPI\<close> itself: a new connecting socket whose handlers read the
  \<^verbatim>\<open>callState\<close> of the closure.  \<open>None\<close> is the \<^verbatim>\<open>throw\<close> of line 271.
\<close>

definition connectToLiveAPI :: "Browser \<Rightarrow> CallState \<Rightarrow> App \<Rightarrow> App option" where
  "connectToLiveAPI b cs s =
     (if websocket_throws b then None
      else Some (s\<lparr>sockets := sockets s @ [\<lparr>readyState = CONNECTING, ws_closure = cs\<rparr>],
                   wsRef := Some (length (sockets s))\<rparr>))"

subsection \<open>Binary frames (lines 146-186) and the playback callbacks\<close>

text \<open>
  \<^verbatim>\<open>reader.onload\<close>; \<open>ok\<close> is false when creating the audio context throws.
\<close>

definition fileReaderLoad :: "CallState \<Rightarrow> bool \<Rightarrow> App \<Rightarrow> App \<times> Action list" where
  "fileReaderLoad cs ok s =
     (if speakerEnabled cs
      then (if ok then (s\<lparr>pending := pending s @ [DecodeAudioData]\<rparr>, [])
            else (s, [Console ''Error processing binary audio:'']))
      else (s, []))"

definition decodeAudioData :: "bool \<Rightarrow> App \<Rightarrow> App \<times> Action list" where
  "decodeAudioData ok s =
     (if ok
      then (s\<lparr>isRecording := True, pending := pending s @ [BufferSourcePlaying]\<rparr>,
            [BufferStart, Console ''Audio played successfully''])
      else (s\<lparr>isRecording := False\<rparr>, [Console ''Error decoding audio data:'']))"

definition playPromise :: "string \<Rightarrow> bool \<Rightarrow> App \<Rightarrow> App \<times> Action list" where
  "playPromise t ok s =
     (if ok then (s\<lparr>isRecording := True\<rparr>, [Console ''Audio playing with type:''])
      else (s, [Console ''Failed with type:'']))"

definition playbackEnded :: "App \<Rightarrow> App \<times> Action list" where
  "playbackEnded s = (s\<lparr>isRecording := False\<rparr>, [])"

subsection \<open>startCall (lines 444-517)\<close>

datatype PermissionState = Granted | Denied | Prompt

text \<open>Up to \<^verbatim>\<open>await navigator.permissions.query\<close>; the closure's \<^verbatim>\<open>connectToLiveAPI\<close> goes along.\<close>

definition startCall :: "App \<Rightarrow> App \<times> Action list" where
  "startCall s = (s\<lparr>pending := pending s @ [PermissionQuery (connect_cs s)]\<rparr>, [])"

definition greeting :: "int \<Rightarrow> ConversationMessage" where
  "greeting now =
     \<lparr>speaker = AI,
      message = ''Ola! Estou pronto para nossa conversa por voz. Pode comecar a falar!'',
      timestamp = now\<rparr>"

text \<open>
  After the permission query, up to \<^verbatim>\<open>await getUserMedia\<close>.  \<open>None\<close> is a query that throws:
  the outer \<^verbatim>\<open>catch\<close> (lines 508-516).
\<close>

definition startCall_permission ::
  "CallState \<Rightarrow> PermissionState option \<Rightarrow> int \<Rightarrow> App \<Rightarrow> App \<times> Action list" where
  "startCall_permission cs permission now s =
     (case permission of
        None \<Rightarrow>
          (let (s', a) = endCall s in (s', [Console ''Error starting call:'', Notify Erro] @ a))
      | Some Denied \<Rightarrow> (s, [Notify PermissaoNegada])
      | Some _ \<Rightarrow>
          (s\<lparr>showCallModal := True,
             callState := (callState s)\<lparr>isActive := True, startTime := Some now,
                                        status := Connecting\<rparr>,
             conversation := [greeting now],
             pending := pending s @ [GetUserMedia cs]\<rparr>, []))"

text \<open>
  After \<^verbatim>\<open>getUserMedia\<close>: \<open>Inr\<close> is the stream, \<open>Inl\<close> the name of the error.  A throw of
  \<^verbatim>\<open>connectToLiveAPI\<close> lands in the same inner \<^verbatim>\<open>catch\<close> (lines 487-506).
\<close>

definition mediaFailed :: "string \<Rightarrow> App \<Rightarrow> App \<times> Action list" where
  "mediaFailed name s =
     (let (s', a) = endCall s
      in (s', [Console ''Microphone access error:'',
               Notify (if name = ''NotAllowedError'' then AcessoNegado else ErroDeMicrofone)] @ a))"

definition startCall_media ::
  "Browser \<Rightarrow> CallState \<Rightarrow> string + MediaStream \<Rightarrow> App \<Rightarrow> App \<times> Action list" where
  "startCall_media b cs result s =
     (case result of
        Inl name \<Rightarrow> mediaFailed name s
      | Inr tracks \<Rightarrow>
          (let s1 = s\<lparr>streams := streams s @ [tracks],
                       mediaStreamRef := Some (length (streams s))\<rparr>
           in case connectToLiveAPI b cs s1 of
                None \<Rightarrow>
                  (let (s', a) = mediaFailed ''Error'' s1
                   in (s', Console ''Microphone access granted'' # a))
              | Some s2 \<Rightarrow> (s2, [Console ''Microphone access granted''])))"

subsection \<open>toggleMute (lines 520-528) and toggleSpeaker (lines 530-532)\<close>

text \<open>
  \<open>closure_isMuted\<close> is \<^verbatim>\<open>callState.isMuted\<close> as the callback's closure reads it; the state
  update itself is functional (\<^verbatim>\<open>prev => ...\<close>).
\<close>

definition toggleMute :: "bool \<Rightarrow> App \<Rightarrow> App" where
  "toggleMute closure_isMuted s =
     (let s1 = s\<lparr>callState := (callState s)\<lparr>isMuted := \<not> isMuted (callState s)\<rparr>\<rparr>
      in case mediaStreamRef s1 of
           None \<Rightarrow> s1
         | Some m \<Rightarrow>
             s1\<lparr>streams :=
                  map_at m
                    (map (\<lambda>t. if kind t = AudioTrack then t\<lparr>enabled := closure_isMuted\<rparr> else t))
                    (streams s1)\<rparr>)"

definition toggleSpeaker :: "App \<Rightarrow> App" where
  "toggleSpeaker s =
     s\<lparr>callState := (callState s)\<lparr>speakerEnabled := \<not> speakerEnabled (callState s)\<rparr>\<rparr>"

subsection \<open>Events and the transition function\<close>

text \<open>
  How a suspended continuation is settled: a promise fulfils or a timer or listener
  fires (\<open>Fulfilled\<close>), something throws or a promise rejects (\<open>Rejected\<close>, with the
  error's name), the permission query answers, \<^verbatim>\<open>getUserMedia\<close> delivers a stream.
\<close>

datatype Settlement =
    Fulfilled
  | Rejected string
  | PermissionStatus PermissionState
  | StreamGranted MediaStream

text \<open>
  The continuation of each task.  \<open>now\<close> is what \<^verbatim>\<open>Date.now()\<close> returns while it runs.
  \<open>None\<close>: the settlement is not one this task can receive.
\<close>

fun resume ::
  "Browser \<Rightarrow> Task \<Rightarrow> Settlement \<Rightarrow> int \<Rightarrow> App \<Rightarrow> (App \<times> Action list) option" where
  "resume b (PermissionQuery cs) (PermissionStatus p) now s =
     Some (startCall_permission cs (Some p) now s)"
| "resume b (PermissionQuery cs) (Rejected e) now s = Some (startCall_permission cs None now s)"
| "resume b (GetUserMedia cs) (StreamGranted tracks) now s =
     Some (startCall_media b cs (Inr tracks) s)"
| "resume b (GetUserMedia cs) (Rejected e) now s = Some (startCall_media b cs (Inl e) s)"
| "resume b SetupTimeout Fulfilled now s = Some (setupTimeout s)"
| "resume b (StreamingTimeout cs) Fulfilled now s = Some (streamingTimeout cs True s)"
| "resume b (StreamingTimeout cs) (Rejected e) now s = Some (streamingTimeout cs False s)"
| "resume b (ArrayBuffer blob) Fulfilled now s = Some (sendAudioData_resume blob True s)"
| "resume b (ArrayBuffer blob) (Rejected e) now s = Some (sendAudioData_resume blob False s)"
| "resume b (FileReaderLoad cs) Fulfilled now s = Some (fileReaderLoad cs True s)"
| "resume b (FileReaderLoad cs) (Rejected e) now s = Some (fileReaderLoad cs False s)"
| "resume b DecodeAudioData Fulfilled now s = Some (decodeAudioData True s)"
| "resume b DecodeAudioData (Rejected e) now s = Some (decodeAudioData False s)"
| "resume b BufferSourcePlaying Fulfilled now s = Some (playbackEnded s)"
| "resume b (PlayPromise t) Fulfilled now s = Some (playPromise t True s)"
| "resume b (PlayPromise t) (Rejected e) now s = Some (playPromise t False s)"
| "resume b AudioElementPlaying Fulfilled now s = Some (playbackEnded s)"
| "resume b _ _ now s = None"

text \<open>
  What can happen to the mounted component: the four buttons, the settling of the
  \<open>k\<close>-th pending continuation, the four events of socket \<open>i\<close>, a chunk from recorder \<open>r\<close>.
\<close>

datatype Event =
    StartCallClick
  | EndCallClick
  | ToggleMuteClick
  | ToggleSpeakerClick
  | Settle nat Settlement int
  | WsOpen nat
  | WsMessage nat Frame int
  | WsError nat
  | WsClose nat
  | DataAvailable nat Blob

definition set_readyState :: "nat \<Rightarrow> ReadyState \<Rightarrow> App \<Rightarrow> App" where
  "set_readyState i r s = s\<lparr>sockets := map_at i (\<lambda>w. w\<lparr>readyState := r\<rparr>) (sockets s)\<rparr>"

text \<open>
  One event, handled.  An event that cannot occur in the state is ignored:
  \<^item> the start button is disabled while \<^verbatim>\<open>callState.isActive\<close> (line 626); the other three
    buttons are inside the dialog, which is open while \<^verbatim>\<open>showCallModal\<close> (line 637);
  \<^item> a socket opens from CONNECTING, delivers messages while OPEN, and is CLOSED when its
    \<^verbatim>\<open>error\<close> and \<^verbatim>\<open>close\<close> events fire (the browser closes a socket before it fires
    them); a \<^verbatim>\<open>close\<close> event is not restricted further;
  \<^item> a recorder that exists may deliver a chunk at any time (the last one arrives after
    \<^verbatim>\<open>stop()\<close>), of any size;
  \<^item> the mute button's callback is re-created whenever \<^verbatim>\<open>callState.isMuted\<close> changes (its
    dependency list, line 528), so its closure reads the rendered value.
\<close>

fun dispatch :: "Browser \<Rightarrow> Event \<Rightarrow> App \<Rightarrow> App \<times> Action list" where
  "dispatch b StartCallClick s = (if isActive (callState s) then (s, []) else startCall s)"
| "dispatch b EndCallClick s = (if showCallModal s then endCall s else (s, []))"
| "dispatch b ToggleMuteClick s =
     (if showCallModal s then (toggleMute (isMuted (callState s)) s, []) else (s, []))"
| "dispatch b ToggleSpeakerClick s =
     (if showCallModal s then (toggleSpeaker s, []) else (s, []))"
| "dispatch b (Settle k r now) s =
     (case lookup (pending s) k of
        None \<Rightarrow> (s, [])
      | Some t \<Rightarrow>
          (case resume b t r now (s\<lparr>pending := remove_at k (pending s)\<rparr>) of
             None \<Rightarrow> (s, [])
           | Some c \<Rightarrow> c))"
| "dispatch b (WsOpen i) s =
     (case lookup (sockets s) i of
        None \<Rightarrow> (s, [])
      | Some w \<Rightarrow>
          if readyState w = CONNECTING then ws_onopen (set_readyState i OPEN s) else (s, []))"
| "dispatch b (WsMessage i frame now) s =
     (case lookup (sockets s) i of
        None \<Rightarrow> (s, [])
      | Some w \<Rightarrow>
          if readyState w = OPEN then ws_onmessage b (ws_closure w) frame now s else (s, []))"
| "dispatch b (WsError i) s =
     (case lookup (sockets s) i of
        None \<Rightarrow> (s, [])
      | Some w \<Rightarrow>
          if readyState w \<noteq> CLOSED then ws_onerror (set_readyState i CLOSED s) else (s, []))"
| "dispatch b (WsClose i) s =
     (case lookup (sockets s) i of
        None \<Rightarrow> (s, [])
      | Some w \<Rightarrow> ws_onclose (set_readyState i CLOSED s))"
| "dispatch b (DataAvailable r blob) s =
     (case lookup (recorders s) r of
        None \<Rightarrow> (s, [])
      | Some m \<Rightarrow> ondataavailable (rec_closure m) blob s)"

text \<open>
  The render that follows a state change: \<^verbatim>\<open>useCallback\<close> keeps the memoised
  \<^verbatim>\<open>connectToLiveAPI\<close> unless \<^verbatim>\<open>callState.speakerEnabled\<close> changed (dependency list, line
  273; the key and \<^verbatim>\<open>toast\<close> do not change during a call), and a new one closes over the
  rendered \<^verbatim>\<open>callState\<close>.
\<close>

definition render :: "App \<Rightarrow> App" where
  "render s =
     (if speakerEnabled (connect_cs s) = speakerEnabled (callState s) then s
      else s\<lparr>connect_cs := callState s\<rparr>)"

definition step :: "Browser \<Rightarrow> Event \<Rightarrow> App \<Rightarrow> App \<times> Action list" where
  "step b e s = (let (s', a) = dispatch b e s in (render s', a))"

text \<open>A run: the events in order, from a state and the effects so far.\<close>

fun run :: "Browser \<Rightarrow> Event list \<Rightarrow> App \<times> Action list \<Rightarrow> App \<times> Action list" where
  "run b [] c = c"
| "run b (e # es) c = run b es (let (s', a) = step b (e) (fst c) in (s', snd c @ a))"

text \<open>A browser in which nothing throws and every base64 text is valid.\<close>

definition chrome :: Browser where
  "chrome =
     \<lparr>atob_ok = (\<lambda>_. True), play_outcome = (\<lambda>_. PlayReturnsPromise),
      websocket_throws = False\<rparr>"

subsection \<open>Notions used to state the properties\<close>

text \<open>
  The types on which \<^verbatim>\<open>play()\<close> was called, in order.
\<close>

fun played :: "Action list \<Rightarrow> string list" where
  "played [] = []"
| "played (AudioPlay t # a) = t # played a"
| "played (x # a) = played a"

text \<open>
  The candidates the loop of \<^verbatim>\<open>playAudioResponse\<close> gets to: a candidate is reached when
  all before it threw; \<open>callsPlay\<close> are those on which \<^verbatim>\<open>play()\<close> is called at all.
\<close>

definition throwsSync :: "Browser \<Rightarrow> string \<Rightarrow> bool" where
  "throwsSync b t =
     (play_outcome b t = BlobThrows \<or> play_outcome b t = AudioThrows
      \<or> play_outcome b t = PlayThrows)"

definition callsPlay :: "Browser \<Rightarrow> string \<Rightarrow> bool" where
  "callsPlay b t = (play_outcome b t \<noteq> BlobThrows \<and> play_outcome b t \<noteq> AudioThrows)"

definition visited :: "Browser \<Rightarrow> string list \<Rightarrow> string list" where
  "visited b ts = takeWhile (throwsSync b) ts @ take 1 (dropWhile (throwsSync b) ts)"

text \<open>A browser in which the base64 text decodes and \<^verbatim>\<open>play()\<close> on the first candidate returns.\<close>

definition playsFirst :: "Browser \<Rightarrow> string \<Rightarrow> bool" where
  "playsFirst b d =
     (atob_ok b d
      \<and> (play_outcome b ''audio/mp3'' = PlayReturnsPromise
         \<or> play_outcome b ''audio/mp3'' = PlayReturnsNothing))"

text \<open>The continuations one call of \<^verbatim>\<open>playAudioResponse\<close> leaves behind.\<close>

definition playTasks :: "Browser \<Rightarrow> string \<Rightarrow> string \<Rightarrow> Task list" where
  "playTasks b d m =
     (if atob_ok b d then snd (snd (tryTypes b (supportedTypes m) None)) else [])"

text \<open>
  What one \<^verbatim>\<open>serverContent\<close> message adds to the transcript, and the continuations it leaves.
\<close>

definition newEntries :: "Part list \<Rightarrow> int \<Rightarrow> ConversationMessage list" where
  "newEntries ps now =
     (case find hasText ps of
        None \<Rightarrow> []
      | Some p \<Rightarrow>
          [\<lparr>speaker = AI, message = (case text_of p of None \<Rightarrow> [] | Some t \<Rightarrow> t),
            timestamp = now\<rparr>])"

definition contentTasks :: "Browser \<Rightarrow> CallState \<Rightarrow> Part list \<Rightarrow> Task list" where
  "contentTasks b cs ps =
     (case findAudio ps of
        None \<Rightarrow> []
      | Some (d, m) \<Rightarrow> if speakerEnabled cs then playTasks b d m else [])"

text \<open>
  A sequence of text frames arriving on socket \<open>i\<close>, each with its arrival time, and the
  transcript entries they stand for, message by message.
\<close>

definition deliver :: "nat \<Rightarrow> (ServerMessage \<times> int) list \<Rightarrow> Event list" where
  "deliver i msgs = map (\<lambda>(d, now). WsMessage i (Json d) now) msgs"

definition transcriptOf :: "(ServerMessage \<times> int) list \<Rightarrow> ConversationMessage list" where
  "transcriptOf msgs =
     concat (map (\<lambda>(d, now). case parts d of None \<Rightarrow> [] | Some ps \<Rightarrow> newEntries ps now) msgs)"

text \<open>\<^verbatim>\<open>track.enabled = v\<close> on every audio track of a stream.\<close>

definition setEnabled :: "bool \<Rightarrow> MediaStream \<Rightarrow> MediaStream" where
  "setEnabled v tracks = map (\<lambda>t. if kind t = AudioTrack then t\<lparr>enabled := v\<rparr> else t) tracks"

text \<open>
  Invariants of runs.  \<open>audioReady\<close>: something exists that can lead to an audio chunk being
  sent (a recorder, the timer that creates one, a chunk being read).  \<open>ordered\<close>: every
  audio chunk in a trace comes after the line logged by the \<^verbatim>\<open>setupComplete\<close> branch.
  \<open>sockClosed\<close>: socket \<open>i\<close> exists and is closed.  \<open>closuresHear\<close>: the dialog is open
  exactly during a call, outside a call the speaker is enabled, and every closure that a
  socket or a continuation holds was created with the speaker enabled.
\<close>

fun isAudioTask :: "Task \<Rightarrow> bool" where
  "isAudioTask (StreamingTimeout cs) = True"
| "isAudioTask (ArrayBuffer blob) = True"
| "isAudioTask _ = False"

definition audioReady :: "App \<Rightarrow> bool" where
  "audioReady s = (recorders s \<noteq> [] \<or> (\<exists>t \<in> set (pending s). isAudioTask t))"

definition ordered :: "Action list \<Rightarrow> bool" where
  "ordered tr =
     (\<forall>pre i blob post. tr = pre @ Send i (RealtimeInput blob) # post \<longrightarrow>
        Console ''Setup completed'' \<in> set pre)"

definition marks :: "Action list \<Rightarrow> bool" where
  "marks a =
     (Console ''WebSocket connected'' \<in> set a \<or> Console ''Setup completed'' \<in> set a)"

definition sockClosed :: "nat \<Rightarrow> App \<Rightarrow> bool" where
  "sockClosed i s = (map_option readyState (lookup (sockets s) i) = Some CLOSED)"

fun taskOK :: "Task \<Rightarrow> bool" where
  "taskOK (PermissionQuery cs) = speakerEnabled cs"
| "taskOK (GetUserMedia cs) = speakerEnabled cs"
| "taskOK (StreamingTimeout cs) = speakerEnabled cs"
| "taskOK (FileReaderLoad cs) = speakerEnabled cs"
| "taskOK _ = True"

definition hear0 :: "App \<Rightarrow> bool" where
  "hear0 s =
     (showCallModal s = isActive (callState s)
      \<and> (isActive (callState s) \<or> speakerEnabled (callState s))
      \<and> list_all (\<lambda>w. speakerEnabled (ws_closure w)) (sockets s)
      \<and> list_all taskOK (pending s))"

definition closuresHear :: "App \<Rightarrow> bool" where
  "closuresHear s =
     (hear0 s \<and> speakerEnabled (connect_cs s) = speakerEnabled (callState s))"

subsection \<open>Scenarios\<close>

text \<open>
  Concrete runs from the mounted component, used to exercise the theorems below.
  \<^item> \<open>opening_call\<close>: the user starts a call, the permission query answers \<^verbatim>\<open>granted\<close>, the
    microphone stream arrives, the socket opens.
  \<^item> \<open>streaming_call\<close>: then the setup timer fires, the peer acknowledges the setup, and
    the streaming timer creates the recorder.
  \<^item> \<open>muted_before_stream\<close>: the user presses the mute button while the microphone is still
    being acquired.
  \<^item> \<open>restarted_call\<close>: the peer acknowledges the setup of a first call (the 500 ms
    streaming timer starts), the user ends the call and starts a new one, whose socket
    (number 1) opens; then the streaming timer of the first call fires, the setup timer of
    the second call fires, and the recorder delivers a chunk, whose bytes are read.  No
    frame arrives on socket 1.
\<close>

definition mic :: MediaStream where
  "mic = [\<lparr>kind = AudioTrack, enabled = True, ended = False\<rparr>]"

definition setupCompleteMsg :: ServerMessage where
  "setupCompleteMsg = \<lparr>parts = None, setupComplete = True\<rparr>"

definition textPart :: "string \<Rightarrow> Part" where
  "textPart t = \<lparr>text_of = Some t, inlineData = None\<rparr>"

definition audioPart :: "string \<Rightarrow> string \<Rightarrow> Part" where
  "audioPart m d = \<lparr>text_of = None, inlineData = Some \<lparr>mimeType = Some m, payload = d\<rparr>\<rparr>"

definition content :: "Part list \<Rightarrow> ServerMessage" where
  "content ps = \<lparr>parts = Some ps, setupComplete = False\<rparr>"

definition opening_call :: "Event list" where
  "opening_call =
     [StartCallClick, Settle 0 (PermissionStatus Granted) 1000, Settle 0 (StreamGranted mic) 1000,
      WsOpen 0]"

definition streaming_call :: "Event list" where
  "streaming_call =
     opening_call @
     [Settle 0 Fulfilled 1100, WsMessage 0 (Json setupCompleteMsg) 1200, Settle 0 Fulfilled 1700]"

definition muted_before_stream :: "Event list" where
  "muted_before_stream =
     [StartCallClick, Settle 0 (PermissionStatus Granted) 1000, ToggleMuteClick,
      Settle 0 (StreamGranted mic) 1100]"

definition restarted_call :: "Event list" where
  "restarted_call =
     opening_call @
     [Settle 0 Fulfilled 1100, WsMessage 0 (Json setupCompleteMsg) 1200,
      EndCallClick, StartCallClick, Settle 1 (PermissionStatus Granted) 1300,
      Settle 1 (StreamGranted mic) 1400, WsOpen 1,
      Settle 0 Fulfilled 1700, Settle 0 Fulfilled 1750,
      DataAvailable 0 [7], Settle 0 Fulfilled 1951]"

definition opened :: App where
  "opened = fst (run chrome opening_call (init, []))"

definition streaming :: App where
  "streaming = fst (run chrome streaming_call (init, []))"


section \<open>Properties\<close>

subsection \<open>Stores and runs\<close>

lemma map_at_length [simp]: "length (map_at i f xs) = length xs"
  by (simp add: map_at_def)

lemma map_at_twice: "map_at i f (map_at i g xs) = map_at i (f \<circ> g) xs"
  by (simp add: map_at_def)

lemma map_at_id: "lookup xs i = Some x \<Longrightarrow> f x = x \<Longrightarrow> map_at i f xs = xs"
  by (auto simp: lookup_def map_at_def split: if_splits)

lemma lookup_map_at_same: "lookup (map_at i f xs) i = map_option f (lookup xs i)"
  by (simp add: lookup_def map_at_def)

lemma lookup_mem: "lookup xs k = Some x \<Longrightarrow> x \<in> set xs"
  by (auto simp: lookup_def split: if_splits)

lemma lookup_last: "lookup (xs @ [x]) (length xs) = Some x"
  by (simp add: lookup_def)

lemma remove_at_last: "remove_at (length xs) (xs @ [x]) = xs"
  by (simp add: remove_at_def)

lemma set_remove_at: "set (remove_at k xs) \<subseteq> set xs"
  by (auto simp: remove_at_def dest: in_set_takeD in_set_dropD)

lemma list_all_map_at:
  "list_all P xs \<Longrightarrow> (\<And>x. P x \<Longrightarrow> P (f x)) \<Longrightarrow> list_all P (map_at i f xs)"
  by (auto simp: map_at_def list_all_length nth_list_update)

lemma list_all_remove_at: "list_all P xs \<Longrightarrow> list_all P (remove_at k xs)"
  using set_remove_at [where k = k and xs = xs] by (auto simp: list_all_iff)

lemma lookup_list_all: "list_all P xs \<Longrightarrow> lookup xs k = Some x \<Longrightarrow> P x"
  using lookup_mem [of xs k x] by (auto simp: list_all_iff)

lemma find_first: "\<exists>p \<in> set ps. P p \<Longrightarrow> \<exists>p. find P ps = Some p \<and> P p"
  by (induction ps) auto

lemma fst_step: "fst (step b e s) = render (fst (dispatch b e s))"
  by (simp add: step_def split_def Let_def)

lemma snd_step: "snd (step b e s) = snd (dispatch b e s)"
  by (simp add: step_def split_def Let_def)

lemma run_invariant:
  assumes "P (fst c) (snd c)"
    and step: "\<And>s tr e. P s tr \<Longrightarrow> P (fst (step b e s)) (tr @ snd (step b e s))"
  shows "P (fst (run b es c)) (snd (run b es c))"
  using assms(1)
proof (induction es arbitrary: c)
  case Nil
  then show ?case by simp
next
  case (Cons e es)
  have "P (fst (step b e (fst c))) (snd c @ snd (step b e (fst c)))"
    using Cons.prems by (rule step)
  then show ?case
    using Cons.IH [of "(fst (step b e (fst c)), snd c @ snd (step b e (fst c)))"]
    by (simp add: split_def Let_def)
qed

lemma render_fields [simp]:
  "callState (render s) = callState s"
  "sockets (render s) = sockets s"
  "conversation (render s) = conversation s"
  "pending (render s) = pending s"
  "recorders (render s) = recorders s"
  by (simp_all add: render_def)

subsection \<open>What each handler changes and emits\<close>

lemma ws_close_closed: "readyState (ws_close w) = CLOSING \<or> readyState (ws_close w) = CLOSED"
  by (cases "readyState w") (simp_all add: ws_close_def)

lemma endCall_fst:
  "fst (endCall s) =
     s\<lparr>callState := idleCallState, showCallModal := False, conversation := [],
       isRecording := False, wsRef := None, mediaStreamRef := None, mediaRecorderRef := None,
       sockets := (case wsRef s of None \<Rightarrow> sockets s | Some i \<Rightarrow> map_at i ws_close (sockets s)),
       recorders :=
         (case mediaRecorderRef s of
            None \<Rightarrow> recorders s
          | Some r \<Rightarrow>
              map_at r (\<lambda>m. if rec_state m \<noteq> Inactive then m\<lparr>rec_state := Inactive\<rparr> else m)
                (recorders s)),
       streams :=
         (case mediaStreamRef s of
            None \<Rightarrow> streams s
          | Some m \<Rightarrow> map_at m (map (\<lambda>t. t\<lparr>ended := True\<rparr>)) (streams s))\<rparr>"
  by (simp add: endCall_def Let_def split: option.splits prod.splits)

lemma endCall_snd:
  "snd (endCall s) =
     (case wsRef s of None \<Rightarrow> [] | Some i \<Rightarrow> [Close i]) @ [Notify ChamadaEncerrada]"
  by (simp add: endCall_def split_def Let_def split: option.splits)

lemma mediaFailed_fst: "fst (mediaFailed n s) = fst (endCall s)"
  by (simp add: mediaFailed_def split_def Let_def)

lemma mediaFailed_snd:
  "snd (mediaFailed n s) =
     [Console ''Microphone access error:'',
      Notify (if n = ''NotAllowedError'' then AcessoNegado else ErroDeMicrofone)] @ snd (endCall s)"
  by (simp add: mediaFailed_def split_def Let_def)

lemma playAudioResponse_fst:
  "fst (playAudioResponse b d m s) = s\<lparr>pending := pending s @ playTasks b d m\<rparr>"
  by (simp add: playAudioResponse_def playTasks_def split_def Let_def)

lemma onServerContent_fst:
  "fst (onServerContent b cs ps now s) =
     s\<lparr>conversation := conversation s @ newEntries ps now,
       pending := pending s @ contentTasks b cs ps\<rparr>"
  by (simp add: onServerContent_def newEntries_def contentTasks_def playAudioResponse_fst
        split_def Let_def split: option.splits)

lemma onSetupComplete_shape:
  "sockets (fst (onSetupComplete cs s)) = sockets s"
  "conversation (fst (onSetupComplete cs s)) = conversation s"
  "snd (onSetupComplete cs s) = [Console ''Setup completed'']"
  by (simp_all add: onSetupComplete_def Let_def)

lemma ws_onmessage_json:
  "sockets (fst (ws_onmessage b cs f now s)) = sockets s"
  "conversation (fst (ws_onmessage b cs (Json d) now s)) =
     conversation s @ (case parts d of None \<Rightarrow> [] | Some ps \<Rightarrow> newEntries ps now)"
  by (cases f)
     (simp_all add: ws_onmessage_def split_def Let_def onSetupComplete_shape onServerContent_fst
        split: option.splits)

lemma setupTimeout_fst: "fst (setupTimeout s) = s"
  by (simp add: setupTimeout_def split: option.splits)

lemma sendAudioData_resume_fst: "fst (sendAudioData_resume blob ok s) = s"
  by (simp add: sendAudioData_resume_def split: option.splits ReadyState.splits)

text \<open>Messages are sent by two continuations only, and only over the open socket of the ref.\<close>

lemma endCall_noSend: "Send i m \<notin> set (snd (endCall s))"
  by (simp add: endCall_snd split: option.splits)

lemma mediaFailed_noSend: "Send i m \<notin> set (snd (mediaFailed n s))"
  by (simp add: mediaFailed_snd endCall_noSend)

lemma startCall_permission_noSend: "Send i m \<notin> set (snd (startCall_permission cs p now s))"
proof (cases p)
  case None
  then show ?thesis
    using endCall_noSend [of i m s] by (simp add: startCall_permission_def split_def Let_def)
next
  case (Some q)
  then show ?thesis by (cases q) (simp_all add: startCall_permission_def)
qed

lemma startCall_media_noSend: "Send i m \<notin> set (snd (startCall_media b cs r s))"
proof (cases r)
  case (Inl n)
  then show ?thesis by (simp add: startCall_media_def mediaFailed_noSend)
next
  case (Inr tr)
  then show ?thesis
    by (cases "websocket_throws b")
       (simp_all add: startCall_media_def connectToLiveAPI_def split_def Let_def
          mediaFailed_noSend)
qed

lemma tryTypes_noSend: "Send i m \<notin> set (fst (snd (tryTypes b ts u)))"
  by (induction b ts u rule: tryTypes.induct)
     (auto simp: split_def Let_def split: PlayOutcome.splits)

lemma playAudioResponse_noSend: "Send i m \<notin> set (snd (playAudioResponse b d mime s))"
  using tryTypes_noSend [of i m b "supportedTypes mime" None]
  by (simp add: playAudioResponse_def split_def Let_def)

lemma onServerContent_noSend: "Send i m \<notin> set (snd (onServerContent b cs ps now s))"
  by (simp add: onServerContent_def split_def Let_def playAudioResponse_noSend
        split: option.splits)

lemma ws_onmessage_noSend: "Send i m \<notin> set (snd (ws_onmessage b cs f now s))"
  by (cases f)
     (simp_all add: ws_onmessage_def onSetupComplete_shape onServerContent_noSend split_def
        Let_def split: option.splits)

lemma small_noSend:
  "Send i m \<notin> set (snd (streamingTimeout cs ok s))"
  "Send i m \<notin> set (snd (fileReaderLoad cs ok s))"
  "Send i m \<notin> set (snd (decodeAudioData ok s))"
  "Send i m \<notin> set (snd (playPromise ty ok s))"
  "Send i m \<notin> set (snd (playbackEnded s))"
  by (simp_all add: streamingTimeout_def fileReaderLoad_def decodeAudioData_def playPromise_def
        playbackEnded_def split: option.splits)

lemma setupTimeout_send:
  "Send i m \<in> set (snd (setupTimeout s)) \<Longrightarrow> wsRef s = Some i \<and> ws_readyState s = Some OPEN"
  by (auto simp: setupTimeout_def split: option.splits if_splits)

lemma sendAudioData_resume_send:
  "Send i m \<in> set (snd (sendAudioData_resume blob ok s)) \<Longrightarrow>
   ok \<and> wsRef s = Some i \<and> ws_readyState s = Some OPEN \<and> m = RealtimeInput blob"
  by (auto simp: sendAudioData_resume_def split: option.splits if_splits ReadyState.splits)

lemma setupTimeout_sends_setup: "Send i (RealtimeInput blob) \<notin> set (snd (setupTimeout s))"
  by (simp add: setupTimeout_def split: option.splits)

lemma resume_send:
  assumes "resume b t r now s = Some c" and "Send i m \<in> set (snd c)"
  shows "wsRef s = Some i \<and> ws_readyState s = Some OPEN
         \<and> (\<forall>blob. m = RealtimeInput blob \<longrightarrow> isAudioTask t)"
  using assms startCall_permission_noSend [of i m _ _ now s]
    startCall_media_noSend [of i m b _ _ s] small_noSend [where i = i and m = m and s = s]
    setupTimeout_send [of i m s] sendAudioData_resume_send [of i m _ _ s]
    setupTimeout_sends_setup [of i _ s]
  by (cases t; cases r) auto

lemma dispatch_send:
  assumes "Send i m \<in> set (snd (dispatch b e s))"
  shows "map_option readyState (lookup (sockets s) i) = Some OPEN
         \<and> (\<forall>blob. m = RealtimeInput blob \<longrightarrow> audioReady s)"
proof (cases e)
  case EndCallClick
  then show ?thesis using assms endCall_noSend [of i m s] by (simp split: if_splits)
next
  case (Settle k r now)
  show ?thesis
  proof (cases "lookup (pending s) k")
    case None
    then show ?thesis using assms Settle by simp
  next
    case (Some t)
    let ?s = "s\<lparr>pending := remove_at k (pending s)\<rparr>"
    show ?thesis
    proof (cases "resume b t r now ?s")
      case None
      then show ?thesis using assms Settle Some by simp
    next
      case (Some c)
      then have "Send i m \<in> set (snd c)"
        using assms Settle \<open>lookup (pending s) k = Some t\<close> by simp
      then have "wsRef ?s = Some i \<and> ws_readyState ?s = Some OPEN
          \<and> (\<forall>blob. m = RealtimeInput blob \<longrightarrow> isAudioTask t)"
        using resume_send [OF Some] by simp
      then show ?thesis
        using lookup_mem [OF \<open>lookup (pending s) k = Some t\<close>]
        by (auto simp: ws_readyState_def audioReady_def)
    qed
  qed
next
  case (WsMessage j f now)
  then show ?thesis
    using assms ws_onmessage_noSend [of i m b _ f now s] by (auto split: option.splits if_splits)
next
  case (DataAvailable r blob)
  then show ?thesis
    using assms by (auto simp: ondataavailable_def sendAudioData_def split: option.splits if_splits)
qed (use assms in \<open>auto simp: startCall_def ws_onopen_def ws_onerror_def ws_onclose_def
       split: option.splits if_splits\<close>)

subsection \<open>Where the status becomes connected\<close>

lemma marks_append: "marks (a @ b) = (marks a \<or> marks b)"
  by (auto simp: marks_def)

lemma status_idle [simp]: "status idleCallState = Idle"
  by (simp add: idleCallState_def)

lemma ws_onmessage_status:
  "status (callState (fst (ws_onmessage b cs f now s))) = Connected \<Longrightarrow>
   status (callState s) = Connected \<or> marks (snd (ws_onmessage b cs f now s))"
  by (cases f)
     (auto simp: ws_onmessage_def onServerContent_fst onSetupComplete_def marks_def split_def
        Let_def split: option.splits if_splits)

lemma startCall_permission_status:
  "status (callState (fst (startCall_permission cs p now s))) \<noteq> Connected
   \<or> status (callState s) = Connected"
proof (cases p)
  case None
  then show ?thesis by (simp add: startCall_permission_def split_def Let_def endCall_fst)
next
  case (Some q)
  then show ?thesis by (cases q) (simp_all add: startCall_permission_def)
qed

lemma startCall_media_status:
  "status (callState (fst (startCall_media b cs r s))) \<noteq> Connected
   \<or> status (callState s) = Connected"
proof (cases r)
  case (Inl n)
  then show ?thesis by (simp add: startCall_media_def mediaFailed_fst endCall_fst)
next
  case (Inr tr)
  then show ?thesis
    by (cases "websocket_throws b")
       (simp_all add: startCall_media_def connectToLiveAPI_def mediaFailed_fst endCall_fst
          split_def Let_def)
qed

lemma callState_small:
  "callState (fst (streamingTimeout cs ok s)) = callState s"
  "callState (fst (fileReaderLoad cs ok s)) = callState s"
  "callState (fst (decodeAudioData ok s)) = callState s"
  "callState (fst (playPromise ty ok s)) = callState s"
  "callState (fst (playbackEnded s)) = callState s"
  by (simp_all add: streamingTimeout_def fileReaderLoad_def decodeAudioData_def playPromise_def
        playbackEnded_def split: option.splits)

lemma resume_status:
  assumes "resume b t r now s = Some c" and "status (callState (fst c)) = Connected"
  shows "status (callState s) = Connected"
  using assms startCall_permission_status [of _ _ now s] startCall_media_status [of b _ _ s]
  by (cases t; cases r)
     (auto simp: callState_small setupTimeout_fst sendAudioData_resume_fst)

lemma dispatch_status:
  assumes "status (callState (fst (dispatch b e s))) = Connected"
  shows "status (callState s) = Connected \<or> marks (snd (dispatch b e s))"
proof (cases e)
  case EndCallClick
  then show ?thesis using assms by (simp add: endCall_fst split: if_splits)
next
  case (Settle k r now)
  then show ?thesis
    using assms resume_status [of b _ r now "s\<lparr>pending := remove_at k (pending s)\<rparr>"]
    by (auto split: option.splits)
next
  case (WsMessage i f now)
  then show ?thesis
    using assms ws_onmessage_status [of b _ f now s] by (auto split: option.splits if_splits)
qed (use assms in \<open>auto simp: marks_def startCall_def toggleMute_def toggleSpeaker_def
       ws_onopen_def ws_onerror_def ws_onclose_def ondataavailable_def sendAudioData_def
       set_readyState_def split_def Let_def split: option.splits if_splits\<close>)

subsection \<open>Where audio forwarding is armed\<close>

lemma audioReady_render [simp]: "audioReady (render s) = audioReady s"
  by (simp add: audioReady_def)

lemma audioReady_endCall: "audioReady (fst (endCall s)) \<Longrightarrow> audioReady s"
  by (auto simp: endCall_fst audioReady_def map_at_def split: option.splits if_splits)

lemma audioReady_remove:
  "audioReady (s\<lparr>pending := remove_at k (pending s)\<rparr>) \<Longrightarrow> audioReady s"
  using set_remove_at [where k = k and xs = "pending s"] by (auto simp: audioReady_def)

lemma tryTypes_tasks: "\<forall>t \<in> set (snd (snd (tryTypes b ts u))). \<not> isAudioTask t"
  by (induction b ts u rule: tryTypes.induct)
     (auto simp: split_def Let_def split: PlayOutcome.splits)

lemma contentTasks_no_audio: "\<forall>t \<in> set (contentTasks b cs ps). \<not> isAudioTask t"
  using tryTypes_tasks by (auto simp: contentTasks_def playTasks_def split: option.splits)

lemma ws_onmessage_audioReady:
  "audioReady (fst (ws_onmessage b cs f now s)) \<Longrightarrow>
   audioReady s \<or> Console ''Setup completed'' \<in> set (snd (ws_onmessage b cs f now s))"
  using contentTasks_no_audio [of b cs]
  by (cases f)
     (auto simp: ws_onmessage_def onServerContent_fst onSetupComplete_def audioReady_def
        split_def Let_def split: option.splits if_splits)

lemma startCall_permission_audio:
  "audioReady (fst (startCall_permission cs p now s)) \<Longrightarrow> audioReady s"
proof (cases p)
  case None
  assume "audioReady (fst (startCall_permission cs p now s))"
  with None show ?thesis
    using audioReady_endCall [of s] by (simp add: startCall_permission_def split_def Let_def)
next
  case (Some q)
  assume "audioReady (fst (startCall_permission cs p now s))"
  with Some show ?thesis
    by (cases q) (simp_all add: startCall_permission_def audioReady_def)
qed

lemma startCall_media_audio:
  "audioReady (fst (startCall_media b cs r s)) \<Longrightarrow> audioReady s"
proof (cases r)
  case (Inl n)
  assume "audioReady (fst (startCall_media b cs r s))"
  then show ?thesis
    using Inl audioReady_endCall [of s] by (simp add: startCall_media_def mediaFailed_fst)
next
  case (Inr tr)
  assume a: "audioReady (fst (startCall_media b cs r s))"
  let ?s1 = "s\<lparr>streams := streams s @ [tr], mediaStreamRef := Some (length (streams s))\<rparr>"
  have s1: "audioReady ?s1 = audioReady s" by (simp add: audioReady_def)
  show ?thesis
  proof (cases "websocket_throws b")
    case True
    then have "audioReady (fst (endCall ?s1))"
      using a Inr
      by (simp add: startCall_media_def connectToLiveAPI_def mediaFailed_fst split_def Let_def)
    then show ?thesis using audioReady_endCall s1 by blast
  next
    case False
    then show ?thesis
      using a Inr by (simp add: startCall_media_def connectToLiveAPI_def Let_def audioReady_def)
  qed
qed

lemma audioReady_small:
  "audioReady (fst (fileReaderLoad cs ok s)) = audioReady s"
  "audioReady (fst (decodeAudioData ok s)) = audioReady s"
  "audioReady (fst (playPromise ty ok s)) = audioReady s"
  "audioReady (fst (playbackEnded s)) = audioReady s"
  by (simp_all add: fileReaderLoad_def decodeAudioData_def playPromise_def playbackEnded_def
        audioReady_def)

lemma resume_audioReady:
  assumes "resume b t r now s = Some c" and "audioReady (fst c)"
  shows "audioReady s \<or> isAudioTask t"
proof (cases "isAudioTask t")
  case True
  then show ?thesis by simp
next
  case False
  then show ?thesis
    using assms startCall_permission_audio [of _ _ now s] startCall_media_audio [of b _ _ s]
    by (cases t; cases r) (auto simp: setupTimeout_fst audioReady_small)
qed

lemma dispatch_audioReady:
  assumes "audioReady (fst (dispatch b e s))"
  shows "audioReady s \<or> Console ''Setup completed'' \<in> set (snd (dispatch b e s))"
proof (cases e)
  case (Settle k r now)
  show ?thesis
  proof (cases "lookup (pending s) k")
    case None
    then show ?thesis using assms Settle by simp
  next
    case (Some t)
    show ?thesis
    proof (cases "resume b t r now (s\<lparr>pending := remove_at k (pending s)\<rparr>)")
      case None
      then show ?thesis using assms Settle Some by simp
    next
      case (Some c)
      then have "audioReady (s\<lparr>pending := remove_at k (pending s)\<rparr>) \<or> isAudioTask t"
        using assms Settle \<open>lookup (pending s) k = Some t\<close> resume_audioReady by simp
      then show ?thesis
        using audioReady_remove [where s = s and k = k]
          lookup_mem [OF \<open>lookup (pending s) k = Some t\<close>]
        by (auto simp: audioReady_def)
    qed
  qed
next
  case (WsMessage i f now)
  then show ?thesis
    using assms ws_onmessage_audioReady [of b _ f now s]
    by (auto split: option.splits if_splits)
next
  case EndCallClick
  then show ?thesis using assms audioReady_endCall [of s] by (auto split: if_splits)
next
  case (DataAvailable r blob)
  then show ?thesis
    using assms by (auto simp: audioReady_def lookup_def split: option.splits if_splits)
qed (use assms in \<open>auto simp: audioReady_def startCall_def toggleMute_def toggleSpeaker_def
       ws_onopen_def ws_onerror_def ws_onclose_def set_readyState_def Let_def
       split: option.splits if_splits\<close>)

lemma ordered_append:
  assumes "ordered tr"
    and "\<And>i blob. Send i (RealtimeInput blob) \<in> set a \<Longrightarrow> Console ''Setup completed'' \<in> set tr"
  shows "ordered (tr @ a)"
  unfolding ordered_def
proof (intro allI impI)
  fix pre i blob post
  assume eq: "tr @ a = pre @ Send i (RealtimeInput blob) # post"
  let ?x = "Send i (RealtimeInput blob)"
  from eq obtain us where
    "tr = pre @ us \<and> us @ a = ?x # post \<or> tr @ us = pre \<and> a = us @ ?x # post"
    by (auto simp: append_eq_append_conv2)
  then consider (left) vs where "tr = pre @ ?x # vs"
    | (right) us where "pre = tr @ us" "a = us @ ?x # post"
    by (cases us) auto
  then show "Console ''Setup completed'' \<in> set pre"
  proof cases
    case left
    then show ?thesis using assms(1) by (auto simp: ordered_def)
  next
    case right
    then have "?x \<in> set a" by simp
    then show ?thesis using assms(2) right by auto
  qed
qed

subsection \<open>A closed socket stays closed\<close>

lemma sockClosed_render [simp]: "sockClosed i (render s) = sockClosed i s"
  by (simp add: sockClosed_def)

lemma sockClosed_map_at:
  assumes "sockClosed i s" and "\<And>w. readyState w = CLOSED \<Longrightarrow> readyState (f w) = CLOSED"
  shows "sockClosed i (s\<lparr>sockets := map_at j f (sockets s)\<rparr>)"
  using assms by (auto simp: sockClosed_def lookup_def map_at_def nth_list_update split: if_splits)

lemma sockClosed_endCall: "sockClosed i s \<Longrightarrow> sockClosed i (fst (endCall s))"
proof (cases "wsRef s")
  case None
  assume "sockClosed i s"
  with None show ?thesis by (simp add: endCall_fst sockClosed_def)
next
  case (Some j)
  assume "sockClosed i s"
  then have "sockClosed i (s\<lparr>sockets := map_at j ws_close (sockets s)\<rparr>)"
    by (rule sockClosed_map_at) (simp add: ws_close_def)
  with Some show ?thesis by (simp add: endCall_fst sockClosed_def)
qed

lemma sockClosed_permission:
  "sockClosed i s \<Longrightarrow> sockClosed i (fst (startCall_permission cs p now s))"
proof (cases p)
  case None
  assume "sockClosed i s"
  with None show ?thesis
    using sockClosed_endCall [of i s] by (simp add: startCall_permission_def split_def Let_def)
next
  case (Some q)
  assume "sockClosed i s"
  with Some show ?thesis
    by (cases q) (simp_all add: startCall_permission_def sockClosed_def)
qed

lemma sockClosed_media:
  "sockClosed i s \<Longrightarrow> sockClosed i (fst (startCall_media b cs r s))"
proof (cases r)
  case (Inl n)
  assume "sockClosed i s"
  with Inl show ?thesis
    using sockClosed_endCall [of i s] by (simp add: startCall_media_def mediaFailed_fst)
next
  case (Inr tr)
  assume h: "sockClosed i s"
  let ?s1 = "s\<lparr>streams := streams s @ [tr], mediaStreamRef := Some (length (streams s))\<rparr>"
  have s1: "sockClosed i ?s1" using h by (simp add: sockClosed_def)
  show ?thesis
  proof (cases "websocket_throws b")
    case True
    then show ?thesis
      using Inr sockClosed_endCall [OF s1]
      by (simp add: startCall_media_def connectToLiveAPI_def mediaFailed_fst split_def Let_def)
  next
    case False
    then show ?thesis
      using Inr h
      by (auto simp: startCall_media_def connectToLiveAPI_def Let_def sockClosed_def lookup_def
            nth_append split: if_splits)
  qed
qed

lemma sockets_small:
  "sockets (fst (streamingTimeout cs ok s)) = sockets s"
  "sockets (fst (fileReaderLoad cs ok s)) = sockets s"
  "sockets (fst (decodeAudioData ok s)) = sockets s"
  "sockets (fst (playPromise ty ok s)) = sockets s"
  "sockets (fst (playbackEnded s)) = sockets s"
  by (simp_all add: streamingTimeout_def fileReaderLoad_def decodeAudioData_def playPromise_def
        playbackEnded_def split: option.splits)

lemma sockClosed_resume:
  assumes "resume b t r now s = Some c" and "sockClosed i s"
  shows "sockClosed i (fst c)"
  using assms sockClosed_permission [of i s _ _ now] sockClosed_media [of i s b]
  by (cases t; cases r)
     (auto simp: sockClosed_def sockets_small setupTimeout_fst sendAudioData_resume_fst)

lemma sockClosed_dispatch:
  assumes "sockClosed i s"
  shows "sockClosed i (fst (dispatch b e s))"
proof (cases e)
  case EndCallClick
  then show ?thesis using assms sockClosed_endCall by simp
next
  case (Settle k r now)
  have "sockClosed i (s\<lparr>pending := remove_at k (pending s)\<rparr>)"
    using assms by (simp add: sockClosed_def)
  then show ?thesis
    using assms Settle
      sockClosed_resume [of b _ r now "s\<lparr>pending := remove_at k (pending s)\<rparr>" _ i]
    by (auto split: option.splits)
next
  case (WsOpen j)
  have "sockClosed i (set_readyState j OPEN s)"
    if "lookup (sockets s) j = Some w" "readyState w = CONNECTING" for w
    using assms that
    by (auto simp: sockClosed_def set_readyState_def lookup_def map_at_def nth_list_update
          split: if_splits)
  then show ?thesis
    using assms WsOpen by (auto simp: ws_onopen_def sockClosed_def split: option.splits)
next
  case (WsMessage j f now)
  then show ?thesis
    using assms by (auto simp: sockClosed_def ws_onmessage_json split: option.splits)
next
  case (WsError j)
  have "sockClosed i (set_readyState j CLOSED s)"
    unfolding set_readyState_def using assms by (rule sockClosed_map_at) simp
  then show ?thesis
    using assms WsError by (auto simp: ws_onerror_def sockClosed_def split: option.splits)
next
  case (WsClose j)
  have "sockClosed i (set_readyState j CLOSED s)"
    unfolding set_readyState_def using assms by (rule sockClosed_map_at) simp
  then show ?thesis
    using assms WsClose by (auto simp: ws_onclose_def sockClosed_def split: option.splits)
next
  case (DataAvailable r blob)
  then show ?thesis
    using assms
    by (auto simp: sockClosed_def ondataavailable_def sendAudioData_def split: option.splits)
qed (use assms in \<open>auto simp: sockClosed_def startCall_def toggleMute_def toggleSpeaker_def
       Let_def split: option.splits\<close>)

lemma closed_socket_silent:
  assumes "sockClosed i s"
  shows "Send i m \<notin> set (snd (run b es (s, [])))"
proof -
  let ?P = "\<lambda>s tr. sockClosed i s \<and> Send i m \<notin> set tr"
  have "?P (fst (run b es (s, []))) (snd (run b es (s, [])))"
  proof (rule run_invariant [where P = ?P])
    show "?P (fst (s, [])) (snd (s, []))" using assms by simp
  next
    fix s' :: App and tr e
    assume inv: "?P s' tr"
    then have "sockClosed i (fst (step b e s'))"
      using sockClosed_dispatch by (simp add: fst_step)
    moreover have "Send i m \<notin> set (snd (step b e s'))"
      using inv dispatch_send [of i m b e s'] by (auto simp: snd_step sockClosed_def)
    ultimately show "?P (fst (step b e s')) (tr @ snd (step b e s'))"
      using inv by simp
  qed
  then show ?thesis by simp
qed

subsection \<open>Every closure was created with the speaker enabled\<close>

lemma render_hear: "hear0 s \<Longrightarrow> closuresHear (render s)"
  by (auto simp: closuresHear_def hear0_def render_def)

lemma hear0_endCall: "hear0 s \<Longrightarrow> hear0 (fst (endCall s))"
  by (auto simp: hear0_def endCall_fst idleCallState_def ws_close_def intro!: list_all_map_at
        split: option.splits)

lemma tryTypes_taskOK: "list_all taskOK (snd (snd (tryTypes b ts u)))"
  by (induction b ts u rule: tryTypes.induct)
     (auto simp: split_def Let_def split: PlayOutcome.splits)

lemma contentTasks_taskOK: "list_all taskOK (contentTasks b cs ps)"
  using tryTypes_taskOK by (simp add: contentTasks_def playTasks_def split: option.splits)

lemma hear0_onmessage:
  "hear0 s \<Longrightarrow> speakerEnabled cs \<Longrightarrow> hear0 (fst (ws_onmessage b cs f now s))"
  using contentTasks_taskOK [of b cs]
  by (cases f)
     (auto simp: hear0_def ws_onmessage_def onServerContent_fst onSetupComplete_def
        split_def Let_def split: option.splits)

lemma hear0_permission:
  "hear0 s \<Longrightarrow> speakerEnabled cs \<Longrightarrow> hear0 (fst (startCall_permission cs p now s))"
proof (cases p)
  case None
  assume "hear0 s"
  with None show ?thesis
    using hear0_endCall [of s] by (simp add: startCall_permission_def split_def Let_def)
next
  case (Some q)
  assume "hear0 s" "speakerEnabled cs"
  with Some show ?thesis
    by (cases q) (simp_all add: startCall_permission_def hear0_def)
qed

lemma hear0_media:
  "hear0 s \<Longrightarrow> speakerEnabled cs \<Longrightarrow> hear0 (fst (startCall_media b cs r s))"
proof (cases r)
  case (Inl n)
  assume "hear0 s"
  with Inl show ?thesis
    using hear0_endCall [of s] by (simp add: startCall_media_def mediaFailed_fst)
next
  case (Inr tr)
  assume h: "hear0 s" "speakerEnabled cs"
  let ?s1 = "s\<lparr>streams := streams s @ [tr], mediaStreamRef := Some (length (streams s))\<rparr>"
  have s1: "hear0 ?s1" using h by (simp add: hear0_def)
  show ?thesis
  proof (cases "websocket_throws b")
    case True
    then show ?thesis
      using Inr hear0_endCall [OF s1]
      by (simp add: startCall_media_def connectToLiveAPI_def mediaFailed_fst split_def Let_def)
  next
    case False
    then show ?thesis
      using Inr h by (simp add: startCall_media_def connectToLiveAPI_def Let_def hear0_def)
  qed
qed

lemma hear0_small:
  "hear0 s \<Longrightarrow> hear0 (fst (setupTimeout s))"
  "hear0 s \<Longrightarrow> hear0 (fst (streamingTimeout cs ok s))"
  "hear0 s \<Longrightarrow> hear0 (fst (sendAudioData_resume blob ok s))"
  "hear0 s \<Longrightarrow> hear0 (fst (fileReaderLoad cs ok s))"
  "hear0 s \<Longrightarrow> hear0 (fst (decodeAudioData ok s))"
  "hear0 s \<Longrightarrow> hear0 (fst (playPromise ty ok s))"
  "hear0 s \<Longrightarrow> hear0 (fst (playbackEnded s))"
  by (simp_all add: setupTimeout_fst sendAudioData_resume_fst streamingTimeout_def
        fileReaderLoad_def decodeAudioData_def playPromise_def playbackEnded_def hear0_def
        split: option.splits)

lemma hear0_resume:
  assumes "resume b t r now s = Some c" and "hear0 s" and "taskOK t"
  shows "hear0 (fst c)"
  using assms hear0_permission [of s _ _ now] hear0_media [of s _ b] hear0_small [of s]
  by (cases t; cases r) auto

lemma hear0_remove: "hear0 s \<Longrightarrow> hear0 (s\<lparr>pending := remove_at k (pending s)\<rparr>)"
  by (simp add: hear0_def list_all_remove_at)

lemma dispatch_hear:
  assumes "closuresHear s"
  shows "hear0 (fst (dispatch b e s))"
proof -
  have h: "hear0 s" using assms by (simp add: closuresHear_def)
  show ?thesis
  proof (cases e)
    case StartCallClick
    then show ?thesis
      using assms by (auto simp: closuresHear_def hear0_def startCall_def)
  next
    case EndCallClick
    then show ?thesis using h hear0_endCall by simp
  next
    case ToggleMuteClick
    then show ?thesis
      using h by (auto simp: hear0_def toggleMute_def Let_def split: option.splits)
  next
    case ToggleSpeakerClick
    then show ?thesis using h by (auto simp: hear0_def toggleSpeaker_def)
  next
    case (Settle k r now)
    show ?thesis
    proof (cases "lookup (pending s) k")
      case None
      then show ?thesis using h Settle by simp
    next
      case (Some t)
      then have t: "taskOK t"
        using h lookup_list_all [of taskOK "pending s" k t] by (simp add: hear0_def)
      show ?thesis
      proof (cases "resume b t r now (s\<lparr>pending := remove_at k (pending s)\<rparr>)")
        case None
        then show ?thesis using h Settle Some by simp
      next
        case (Some c)
        then show ?thesis
          using Settle \<open>lookup (pending s) k = Some t\<close>
            hear0_resume [OF Some hear0_remove [OF h] t]
          by simp
      qed
    qed
  next
    case (WsOpen i)
    then show ?thesis
      using h
      by (auto simp: hear0_def ws_onopen_def set_readyState_def intro!: list_all_map_at
            split: option.splits)
  next
    case (WsMessage i f now)
    then show ?thesis
      using h hear0_onmessage [of s _ b f now]
        lookup_list_all [of "\<lambda>w. speakerEnabled (ws_closure w)" "sockets s" i]
      by (auto simp: hear0_def split: option.splits)
  next
    case (WsError i)
    then show ?thesis
      using h
      by (auto simp: hear0_def ws_onerror_def set_readyState_def intro!: list_all_map_at
            split: option.splits)
  next
    case (WsClose i)
    then show ?thesis
      using h
      by (auto simp: hear0_def ws_onclose_def set_readyState_def intro!: list_all_map_at
            split: option.splits)
  next
    case (DataAvailable r blob)
    then show ?thesis
      using h by (auto simp: hear0_def ondataavailable_def sendAudioData_def split: option.splits)
  qed
qed

lemma closuresHear_run: "closuresHear (fst (run b es (init, [])))"
proof (rule run_invariant [where P = "\<lambda>s tr. closuresHear s"])
  show "closuresHear (fst (init, []))"
    by (simp add: closuresHear_def hear0_def init_def idleCallState_def)
next
  fix s :: App and tr :: "Action list" and e
  assume "closuresHear s"
  then show "closuresHear (fst (step b e s))"
    using dispatch_hear render_hear by (simp add: fst_step)
qed

subsection \<open>The scenarios, evaluated\<close>

lemma opening_run:
  "run chrome opening_call (init, []) =
     (\<lparr>callState =
         \<lparr>isActive = True, startTime = Some 1000, duration = ''00:00'', isMuted = False,
          speakerEnabled = True, status = Connected\<rparr>,
       showCallModal = True, conversation = [greeting 1000], isRecording = False,
       wsRef = Some 0, mediaStreamRef = Some 0, mediaRecorderRef = None,
       connect_cs = idleCallState,
       sockets = [\<lparr>readyState = OPEN, ws_closure = idleCallState\<rparr>],
       streams = [mic], recorders = [], pending = [SetupTimeout]\<rparr>,
      [Console ''Microphone access granted'', Console ''WebSocket connected'', Notify Conectado])"
  by code_simp

lemma streaming_run:
  "run chrome streaming_call (init, []) =
     (\<lparr>callState =
         \<lparr>isActive = True, startTime = Some 1000, duration = ''00:00'', isMuted = False,
          speakerEnabled = True, status = Connected\<rparr>,
       showCallModal = True, conversation = [greeting 1000], isRecording = False,
       wsRef = Some 0, mediaStreamRef = Some 0, mediaRecorderRef = Some 0,
       connect_cs = idleCallState,
       sockets = [\<lparr>readyState = OPEN, ws_closure = idleCallState\<rparr>],
       streams = [mic],
       recorders = [\<lparr>rec_stream = 0, rec_state = Recording, rec_closure = idleCallState\<rparr>],
       pending = []\<rparr>,
      [Console ''Microphone access granted'', Console ''WebSocket connected'', Notify Conectado,
       Console ''Sending setup message'', Send 0 Setup,
       Console ''Received WebSocket message:'', Console ''Parsed JSON data:'',
       Console ''Setup completed'', Console ''Setting up audio streaming...'',
       Console ''Audio streaming setup completed''])"
  by code_simp

lemma opened_eq:
  "opened =
     \<lparr>callState =
        \<lparr>isActive = True, startTime = Some 1000, duration = ''00:00'', isMuted = False,
         speakerEnabled = True, status = Connected\<rparr>,
      showCallModal = True, conversation = [greeting 1000], isRecording = False,
      wsRef = Some 0, mediaStreamRef = Some 0, mediaRecorderRef = None,
      connect_cs = idleCallState,
      sockets = [\<lparr>readyState = OPEN, ws_closure = idleCallState\<rparr>],
      streams = [mic], recorders = [], pending = [SetupTimeout]\<rparr>"
  by (simp add: opened_def opening_run)

lemma streaming_eq:
  "streaming =
     \<lparr>callState =
        \<lparr>isActive = True, startTime = Some 1000, duration = ''00:00'', isMuted = False,
         speakerEnabled = True, status = Connected\<rparr>,
      showCallModal = True, conversation = [greeting 1000], isRecording = False,
      wsRef = Some 0, mediaStreamRef = Some 0, mediaRecorderRef = Some 0,
      connect_cs = idleCallState,
      sockets = [\<lparr>readyState = OPEN, ws_closure = idleCallState\<rparr>],
      streams = [mic],
      recorders = [\<lparr>rec_stream = 0, rec_state = Recording, rec_closure = idleCallState\<rparr>],
      pending = []\<rparr>"
  by (simp add: streaming_def streaming_run)

lemma run_from: "run b (es @ fs) c = run b fs (run b es c)"
  by (induction es arbitrary: c) simp_all

section \<open>The claims\<close>

text \<open>
  Claim C1, as amended.  The status becomes connected when the socket reports open
  (\<open>ws_onopen\<close>) and again when a \<open>setupComplete\<close> message is handled (\<open>onSetupComplete\<close>); and
  in every run from the mounted component, in any browser, a connected status implies
  that earlier in the run the socket reported open or a \<open>setupComplete\<close> message was
  handled.  The two events are recognised in the trace by the lines their handlers log.
\<close>

theorem connected_after_open_or_setupComplete:
  "status (callState (fst (ws_onopen s))) = Connected
   \<and> status (callState (fst (onSetupComplete cs s))) = Connected
   \<and> (status (callState (fst (run b es (init, [])))) = Connected \<longrightarrow>
        Console ''WebSocket connected'' \<in> set (snd (run b es (init, [])))
        \<or> Console ''Setup completed'' \<in> set (snd (run b es (init, []))))"
proof -
  have "status (callState (fst (run b es (init, [])))) = Connected \<longrightarrow>
        marks (snd (run b es (init, [])))"
  proof (rule run_invariant [where P = "\<lambda>s tr. status (callState s) = Connected \<longrightarrow> marks tr"])
    show "status (callState (fst (init, []))) = Connected \<longrightarrow> marks (snd (init, []))"
      by (simp add: init_def)
  next
    fix s :: App and tr e
    assume "status (callState s) = Connected \<longrightarrow> marks tr"
    then show "status (callState (fst (step b e s))) = Connected \<longrightarrow>
               marks (tr @ snd (step b e s))"
      using dispatch_status [of b e s] by (auto simp: marks_append fst_step snd_step)
  qed
  then show ?thesis
    by (simp add: marks_def ws_onopen_def onSetupComplete_def Let_def)
qed

theorem connected_after_open_or_setupComplete_witness:
  "status (callState (fst (run chrome opening_call (init, [])))) = Connected
   \<and> (Console ''WebSocket connected'' \<in> set (snd (run chrome opening_call (init, [])))
      \<or> Console ''Setup completed'' \<in> set (snd (run chrome opening_call (init, []))))"
proof -
  have h: "status (callState (fst (run chrome opening_call (init, [])))) = Connected"
    by (simp add: opening_run)
  from connected_after_open_or_setupComplete [of init idleCallState chrome opening_call] h
  show ?thesis by blast
qed

text \<open>
  Claim C1 as stated fails: after \<open>opening_call\<close> (start, permission granted, stream
  acquired, socket open) the status is connected although no \<open>setupComplete\<close> message has
  been handled; no message has arrived at all.
\<close>

theorem connected_without_setupComplete:
  "status (callState (fst (run chrome opening_call (init, [])))) = Connected
   \<and> Console ''Setup completed'' \<notin> set (snd (run chrome opening_call (init, [])))
   \<and> opening_call =
       [StartCallClick, Settle 0 (PermissionStatus Granted) 1000,
        Settle 0 (StreamGranted mic) 1000, WsOpen 0]"
  by (simp add: opening_run) (simp add: opening_call_def)

text \<open>
  What holds of audio chunks in every run from the mounted component, in any browser:
  every audio chunk message (\<open>RealtimeInput\<close>) in the trace is preceded by the handling of
  some \<open>setupComplete\<close> message, and a recorder, whose \<open>ondataavailable\<close> is the only caller
  of the send path, exists only after a \<open>setupComplete\<close> message has been handled.  The
  message need not have arrived on the socket the chunk goes out on, as claim C2 shows.
\<close>

lemma audio_follows_a_setupComplete:
  "(snd (run b es (init, [])) = pre @ Send i (RealtimeInput blob) # post \<longrightarrow>
      Console ''Setup completed'' \<in> set pre)
   \<and> (recorders (fst (run b es (init, []))) \<noteq> [] \<longrightarrow>
      Console ''Setup completed'' \<in> set (snd (run b es (init, []))))"
proof -
  let ?P = "\<lambda>s tr. (audioReady s \<longrightarrow> Console ''Setup completed'' \<in> set tr) \<and> ordered tr"
  have "?P (fst (run b es (init, []))) (snd (run b es (init, [])))"
  proof (rule run_invariant [where P = ?P])
    show "?P (fst (init, [])) (snd (init, []))"
      by (simp add: init_def audioReady_def ordered_def)
  next
    fix s :: App and tr e
    assume inv: "?P s tr"
    have 1: "audioReady (fst (step b e s)) \<longrightarrow>
             Console ''Setup completed'' \<in> set (tr @ snd (step b e s))"
      using inv dispatch_audioReady [of b e s] by (auto simp: fst_step snd_step)
    have "Console ''Setup completed'' \<in> set tr"
      if "Send j (RealtimeInput c) \<in> set (snd (step b e s))" for j c
      using that inv dispatch_send [of j "RealtimeInput c" b e s] by (simp add: snd_step)
    then have 2: "ordered (tr @ snd (step b e s))"
      using inv ordered_append by blast
    show "?P (fst (step b e s)) (tr @ snd (step b e s))"
      using 1 2 by blast
  qed
  then show ?thesis
    by (auto simp: ordered_def audioReady_def)
qed

text \<open>
  Claim C2, evaluated on the code at the failing input \<open>restarted_call\<close>.  The trace of
  the run: the first call is set up on socket 0 and acknowledged (the \<open>setupComplete\<close>
  branch logs its line and starts the 500 ms timer), the call is ended (socket 0 is
  closed) and a second call is connected on socket 1.  The timer of the first call then
  finds a stream and an open socket in the refs and creates the recorder; the setup
  message of the second call goes out; and the recorder's chunk is sent over socket 1,
  on which no frame has arrived, so before the peer has acknowledged that setup.
\<close>

theorem audio_before_setupComplete_of_its_connection:
  "snd (run chrome restarted_call (init, [])) =
     [Console ''Microphone access granted'', Console ''WebSocket connected'', Notify Conectado,
      Console ''Sending setup message'', Send 0 Setup,
      Console ''Received WebSocket message:'', Console ''Parsed JSON data:'',
      Console ''Setup completed'',
      Close 0, Notify ChamadaEncerrada,
      Console ''Microphone access granted'', Console ''WebSocket connected'', Notify Conectado,
      Console ''Setting up audio streaming...'', Console ''Audio streaming setup completed'',
      Console ''Sending setup message'', Send 1 Setup,
      Console ''Sending audio data, size:'', Send 1 (RealtimeInput [7]),
      Console ''Audio data sent successfully'']
   \<and> wsRef (fst (run chrome restarted_call (init, []))) = Some 1
   \<and> map readyState (sockets (fst (run chrome restarted_call (init, [])))) = [CLOSING, OPEN]"
  by code_simp

text \<open>
  Claim C3, as amended.  A chunk handed to the recorder's \<open>ondataavailable\<close> enters the send
  path only if, at that instant, it is non-empty and the ref's socket is open; it is then
  transmitted, as one \<open>RealtimeInput\<close> message carrying its bytes, only if the socket is
  still open when its bytes have been read.  A chunk that fails a gate is dropped: the state
  is left as it was, so nothing is queued or retried, and nothing is sent.  (Which value of
  \<^verbatim>\<open>isMuted\<close> the gate reads is not part of the amended claim.)
\<close>

theorem chunk_forwarded_only_if_nonempty_and_open:
  "((blob = [] \<or> ws_readyState s \<noteq> Some OPEN) \<longrightarrow> ondataavailable cs blob s = (s, []))
   \<and> (fst (ondataavailable cs blob s) = s
        \<or> fst (ondataavailable cs blob s) = s\<lparr>pending := pending s @ [ArrayBuffer blob]\<rparr>)
   \<and> (\<forall>i m. Send i m \<notin> set (snd (ondataavailable cs blob s)))
   \<and> (Send i m \<in> set (snd (sendAudioData_resume blob ok s)) \<longrightarrow>
        ok \<and> wsRef s = Some i \<and> ws_readyState s = Some OPEN \<and> m = RealtimeInput blob)"
  by (auto simp: ondataavailable_def sendAudioData_def sendAudioData_resume_def
        split: option.splits ReadyState.splits if_splits)

theorem chunk_forwarded_only_if_nonempty_and_open_witness:
  "ondataavailable idleCallState [] streaming = (streaming, [])
   \<and> Send 0 (RealtimeInput [1, 2, 3]) \<in> set (snd (sendAudioData_resume [1, 2, 3] True streaming))
   \<and> wsRef streaming = Some 0 \<and> ws_readyState streaming = Some OPEN"
proof -
  have h: "Send 0 (RealtimeInput [1, 2, 3])
             \<in> set (snd (sendAudioData_resume [1, 2, 3] True streaming))"
    by (simp add: streaming_eq sendAudioData_resume_def ws_readyState_def lookup_def)
  from chunk_forwarded_only_if_nonempty_and_open
         [of "[]" streaming idleCallState 0 "RealtimeInput [1, 2, 3]" True]
  have 1: "ondataavailable idleCallState [] streaming = (streaming, [])" by blast
  from chunk_forwarded_only_if_nonempty_and_open
         [of "[1, 2, 3]" streaming idleCallState 0 "RealtimeInput [1, 2, 3]" True] h
  have 2: "wsRef streaming = Some 0 \<and> ws_readyState streaming = Some OPEN" by blast
  from h 1 2 show ?thesis by blast
qed

text \<open>
  Claim C3 as stated fails in both directions.  After \<open>streaming_call\<close> and one press of the
  mute button the session is muted and the socket is open, yet a chunk from the recorder is
  sent: the recorder's handler reads the \<^verbatim>\<open>callState\<close> of the closure that created it, in
  which \<^verbatim>\<open>isMuted\<close> is still false.  And after \<open>streaming_call\<close> alone the session is not
  muted and the socket is open, yet an empty chunk is not forwarded: the handler also
  requires \<^verbatim>\<open>event.data.size > 0\<close>.
\<close>

theorem muted_chunk_sent_and_empty_chunk_dropped:
  "isMuted (callState (fst (run chrome (streaming_call @ [ToggleMuteClick]) (init, []))))
   \<and> ws_readyState (fst (run chrome (streaming_call @ [ToggleMuteClick]) (init, []))) = Some OPEN
   \<and> snd (run chrome [DataAvailable 0 [1, 2, 3], Settle 0 Fulfilled 2000]
            (fst (run chrome (streaming_call @ [ToggleMuteClick]) (init, [])), []))
       = [Console ''Sending audio data, size:'', Send 0 (RealtimeInput [1, 2, 3]),
          Console ''Audio data sent successfully'']
   \<and> \<not> isMuted (callState streaming)
   \<and> ws_readyState streaming = Some OPEN
   \<and> run chrome [DataAvailable 0 []] (streaming, []) = (streaming, [])"
proof -
  have m: "run chrome [ToggleMuteClick] (run chrome streaming_call (init, [])) =
     (\<lparr>callState =
         \<lparr>isActive = True, startTime = Some 1000, duration = ''00:00'', isMuted = True,
          speakerEnabled = True, status = Connected\<rparr>,
       showCallModal = True, conversation = [greeting 1000], isRecording = False,
       wsRef = Some 0, mediaStreamRef = Some 0, mediaRecorderRef = Some 0,
       connect_cs = idleCallState,
       sockets = [\<lparr>readyState = OPEN, ws_closure = idleCallState\<rparr>],
       streams = [[\<lparr>kind = AudioTrack, enabled = False, ended = False\<rparr>]],
       recorders = [\<lparr>rec_stream = 0, rec_state = Recording, rec_closure = idleCallState\<rparr>],
       pending = []\<rparr>,
      snd (run chrome streaming_call (init, [])))"
    unfolding streaming_run by code_simp
  have 1: "isMuted (callState (fst (run chrome (streaming_call @ [ToggleMuteClick]) (init, []))))"
    by (simp only: run_from m fst_conv) simp
  have 2: "ws_readyState (fst (run chrome (streaming_call @ [ToggleMuteClick]) (init, [])))
             = Some OPEN"
    by (simp only: run_from m fst_conv) (simp add: ws_readyState_def lookup_def)
  have 3: "snd (run chrome [DataAvailable 0 [1, 2, 3], Settle 0 Fulfilled 2000]
            (fst (run chrome (streaming_call @ [ToggleMuteClick]) (init, [])), []))
       = [Console ''Sending audio data, size:'', Send 0 (RealtimeInput [1, 2, 3]),
          Console ''Audio data sent successfully'']"
    unfolding run_from m fst_conv by code_simp
  have 4: "\<not> isMuted (callState streaming)" "ws_readyState streaming = Some OPEN"
    by (simp_all add: streaming_eq ws_readyState_def lookup_def)
  have 5: "run chrome [DataAvailable 0 []] (streaming, []) = (streaming, [])"
    unfolding streaming_eq by code_simp
  from 1 2 3 4 5 show ?thesis by blast
qed

text \<open>
  Claim C4, as amended.  When a socket that is not yet closed reports an error, the handler
  sets the status to disconnected and emits one connection-error notification, and that is
  all it does to the session: the connection ref, the device ref and the recorder ref are
  left as they are, and so are the streams (no track is stopped) and the recorders.  The
  errored socket is closed, and it stays closed: in every continuation of the run no
  message, so no audio chunk, is sent over it.
\<close>

theorem transport_error_only_disconnects:
  "lookup (sockets s) i = Some w \<and> readyState w \<noteq> CLOSED \<longrightarrow>
     (let s' = fst (step b (WsError i) s)
      in status (callState s') = Disconnected
         \<and> snd (step b (WsError i) s) = [Console ''WebSocket error:'', Notify ErroDeConexao]
         \<and> wsRef s' = wsRef s \<and> mediaStreamRef s' = mediaStreamRef s
         \<and> mediaRecorderRef s' = mediaRecorderRef s
         \<and> streams s' = streams s \<and> recorders s' = recorders s
         \<and> (\<forall>es m. Send i m \<notin> set (snd (run b es (s', [])))))"
proof
  assume a: "lookup (sockets s) i = Some w \<and> readyState w \<noteq> CLOSED"
  let ?s' = "fst (step b (WsError i) s)"
  have d: "dispatch b (WsError i) s = ws_onerror (set_readyState i CLOSED s)"
    using a by simp
  have fs: "?s' = render (fst (ws_onerror (set_readyState i CLOSED s)))"
    by (simp only: fst_step d)
  have "sockClosed i (set_readyState i CLOSED s)"
    using a by (auto simp: sockClosed_def set_readyState_def lookup_def map_at_def split: if_splits)
  then have "sockClosed i ?s'"
    by (simp add: fs ws_onerror_def sockClosed_def)
  then have quiet: "\<forall>es m. Send i m \<notin> set (snd (run b es (?s', [])))"
    using closed_socket_silent by blast
  have sn: "snd (step b (WsError i) s) = [Console ''WebSocket error:'', Notify ErroDeConexao]"
    by (simp only: snd_step d) (simp add: ws_onerror_def)
  have st: "status (callState ?s') = Disconnected"
    by (simp add: fs ws_onerror_def)
  have frame: "wsRef ?s' = wsRef s \<and> mediaStreamRef ?s' = mediaStreamRef s
         \<and> mediaRecorderRef ?s' = mediaRecorderRef s
         \<and> streams ?s' = streams s \<and> recorders ?s' = recorders s"
    by (simp add: fs ws_onerror_def set_readyState_def render_def)
  show "let s' = fst (step b (WsError i) s)
      in status (callState s') = Disconnected
         \<and> snd (step b (WsError i) s) = [Console ''WebSocket error:'', Notify ErroDeConexao]
         \<and> wsRef s' = wsRef s \<and> mediaStreamRef s' = mediaStreamRef s
         \<and> mediaRecorderRef s' = mediaRecorderRef s
         \<and> streams s' = streams s \<and> recorders s' = recorders s
         \<and> (\<forall>es m. Send i m \<notin> set (snd (run b es (s', []))))"
    unfolding Let_def using quiet sn st frame by blast
qed

theorem transport_error_only_disconnects_witness:
  "lookup (sockets streaming) 0 = Some \<lparr>readyState = OPEN, ws_closure = idleCallState\<rparr>
   \<and> readyState \<lparr>readyState = OPEN, ws_closure = idleCallState\<rparr> \<noteq> CLOSED
   \<and> status (callState (fst (step chrome (WsError 0) streaming))) = Disconnected
   \<and> mediaStreamRef (fst (step chrome (WsError 0) streaming)) = Some 0
   \<and> Send 0 (RealtimeInput [1, 2, 3])
       \<notin> set (snd (run chrome [DataAvailable 0 [1, 2, 3], Settle 0 Fulfilled 2000]
                     (fst (step chrome (WsError 0) streaming), [])))"
proof -
  have h: "lookup (sockets streaming) 0 = Some \<lparr>readyState = OPEN, ws_closure = idleCallState\<rparr>
      \<and> readyState \<lparr>readyState = OPEN, ws_closure = idleCallState\<rparr> \<noteq> CLOSED"
    by (simp add: streaming_eq lookup_def)
  have m: "mediaStreamRef streaming = Some 0" by (simp add: streaming_eq)
  from transport_error_only_disconnects
         [of streaming 0 "\<lparr>readyState = OPEN, ws_closure = idleCallState\<rparr>" chrome] h
  have c: "status (callState (fst (step chrome (WsError 0) streaming))) = Disconnected
      \<and> mediaStreamRef (fst (step chrome (WsError 0) streaming)) = mediaStreamRef streaming
      \<and> (\<forall>es m. Send 0 m \<notin> set (snd (run chrome es (fst (step chrome (WsError 0) streaming), []))))"
    unfolding Let_def by blast
  then have "Send 0 (RealtimeInput [1, 2, 3])
       \<notin> set (snd (run chrome [DataAvailable 0 [1, 2, 3], Settle 0 Fulfilled 2000]
                     (fst (step chrome (WsError 0) streaming), [])))"
    by blast
  with h c m show ?thesis by metis
qed

text \<open>
  Claim C4 as stated fails: when the socket of the streaming call reports an error, the
  status becomes disconnected but nothing is torn down.  The device ref still holds the
  stream, its track is still live, the recorder is still recording, and the connection
  ref still holds the socket.
\<close>

theorem transport_error_without_teardown:
  "status (callState (fst (run chrome (streaming_call @ [WsError 0]) (init, [])))) = Disconnected
   \<and> mediaStreamRef (fst (run chrome (streaming_call @ [WsError 0]) (init, []))) = Some 0
   \<and> streams (fst (run chrome (streaming_call @ [WsError 0]) (init, [])))
       = [[\<lparr>kind = AudioTrack, enabled = True, ended = False\<rparr>]]
   \<and> recorders (fst (run chrome (streaming_call @ [WsError 0]) (init, [])))
       = [\<lparr>rec_stream = 0, rec_state = Recording, rec_closure = idleCallState\<rparr>]
   \<and> wsRef (fst (run chrome (streaming_call @ [WsError 0]) (init, []))) = Some 0"
proof -
  have "fst (run chrome [WsError 0] (run chrome streaming_call (init, []))) =
     \<lparr>callState =
         \<lparr>isActive = True, startTime = Some 1000, duration = ''00:00'', isMuted = False,
          speakerEnabled = True, status = Disconnected\<rparr>,
       showCallModal = True, conversation = [greeting 1000], isRecording = False,
       wsRef = Some 0, mediaStreamRef = Some 0, mediaRecorderRef = Some 0,
       connect_cs = idleCallState,
       sockets = [\<lparr>readyState = CLOSED, ws_closure = idleCallState\<rparr>],
       streams = [[\<lparr>kind = AudioTrack, enabled = True, ended = False\<rparr>]],
       recorders = [\<lparr>rec_stream = 0, rec_state = Recording, rec_closure = idleCallState\<rparr>],
       pending = []\<rparr>"
    unfolding streaming_run by code_simp
  then show ?thesis by (simp add: run_from)
qed

subsection \<open>The loop over the candidate types\<close>

lemma played_append [simp]: "played (a @ b) = played a @ played b"
  by (induction a rule: played.induct) simp_all

lemma visited_Nil [simp]: "visited b [] = []"
  by (simp add: visited_def)

lemma visited_Cons: "visited b (t # ts) = (if throwsSync b t then t # visited b ts else [t])"
  by (simp add: visited_def)

lemma tryTypes_played:
  "played (fst (snd (tryTypes b ts u))) = filter (callsPlay b) (visited b ts)"
  by (induction b ts u rule: tryTypes.induct)
     (auto simp: visited_Cons throwsSync_def callsPlay_def split_def Let_def
        split: PlayOutcome.splits)



lemma tryTypes_no_request:
  "Console ''Playing audio response'' \<notin> set (fst (snd (tryTypes b ts u)))"
  by (induction b ts u rule: tryTypes.induct)
     (auto simp: split_def Let_def split: PlayOutcome.splits)

lemma playAudioResponse_snd:
  "atob_ok b d \<Longrightarrow>
   snd (playAudioResponse b d mime s) =
     fst (snd (tryTypes b (supportedTypes mime) None))
     @ (if fst (tryTypes b (supportedTypes mime) None) = None
        then [Console ''No supported audio format found''] else [])"
  by (simp add: playAudioResponse_def split_def Let_def)




text \<open>
  Claim C6, evaluated on the code at the failing input.  After \<open>opening_call\<close> the user
  turns the speaker off: the flag is false and nothing has been played.  The next inbound
  message carries an inline audio part, and it is played all the same: the socket's
  \<^verbatim>\<open>onmessage\<close> reads \<^verbatim>\<open>callState.speakerEnabled\<close> of the closure that was attached when the
  connection was made.
\<close>

theorem speaker_off_still_plays:
  "\<not> speakerEnabled (callState (fst (run chrome (opening_call @ [ToggleSpeakerClick]) (init, []))))
   \<and> played (snd (run chrome (opening_call @ [ToggleSpeakerClick]) (init, []))) = []
   \<and> played
        (snd (run chrome [WsMessage 0 (Json (content [audioPart ''audio/pcm'' ''AAAA''])) 3000]
                (fst (run chrome (opening_call @ [ToggleSpeakerClick]) (init, [])), [])))
       = [''audio/mp3'']"
proof -
  have t: "run chrome [ToggleSpeakerClick] (run chrome opening_call (init, [])) =
     (\<lparr>callState =
         \<lparr>isActive = True, startTime = Some 1000, duration = ''00:00'', isMuted = False,
          speakerEnabled = False, status = Connected\<rparr>,
       showCallModal = True, conversation = [greeting 1000], isRecording = False,
       wsRef = Some 0, mediaStreamRef = Some 0, mediaRecorderRef = None,
       connect_cs =
         \<lparr>isActive = True, startTime = Some 1000, duration = ''00:00'', isMuted = False,
          speakerEnabled = False, status = Connected\<rparr>,
       sockets = [\<lparr>readyState = OPEN, ws_closure = idleCallState\<rparr>],
       streams = [mic], recorders = [], pending = [SetupTimeout]\<rparr>,
      snd (run chrome opening_call (init, [])))"
    unfolding opening_run by code_simp
  have 1: "\<not> speakerEnabled
             (callState (fst (run chrome (opening_call @ [ToggleSpeakerClick]) (init, []))))"
    by (simp only: run_from t fst_conv) simp
  have 2: "played (snd (run chrome (opening_call @ [ToggleSpeakerClick]) (init, []))) = []"
    by (simp only: run_from t snd_conv) (simp add: opening_run)
  have 3: "played
        (snd (run chrome [WsMessage 0 (Json (content [audioPart ''audio/pcm'' ''AAAA''])) 3000]
                (fst (run chrome (opening_call @ [ToggleSpeakerClick]) (init, [])), [])))
       = [''audio/mp3'']"
    unfolding run_from t fst_conv by code_simp
  from 1 2 3 show ?thesis by blast
qed

subsection \<open>endCall\<close>

text \<open>
  Claim C7.  From every state, \<open>endCall\<close> leaves the session at its idle defaults (status
  idle, no start time, not muted, speaker enabled, empty transcript), with the three refs
  null, the socket the connection ref pointed to closing or closed and every track of the
  stream the device ref pointed to stopped; and a second \<open>endCall\<close> right after the first
  yields the same state as the first alone.  (Each call also emits one "call ended"
  notification, which is an effect and not part of the state.)
\<close>

theorem endCall_resets_session:
  "status (callState (fst (endCall s))) = Idle
   \<and> startTime (callState (fst (endCall s))) = None
   \<and> \<not> isMuted (callState (fst (endCall s)))
   \<and> speakerEnabled (callState (fst (endCall s)))
   \<and> conversation (fst (endCall s)) = []
   \<and> wsRef (fst (endCall s)) = None
   \<and> mediaStreamRef (fst (endCall s)) = None
   \<and> mediaRecorderRef (fst (endCall s)) = None
   \<and> (\<forall>i w. wsRef s = Some i \<longrightarrow> lookup (sockets (fst (endCall s))) i = Some w \<longrightarrow>
          readyState w = CLOSING \<or> readyState w = CLOSED)
   \<and> (\<forall>m tracks. mediaStreamRef s = Some m \<longrightarrow>
          lookup (streams (fst (endCall s))) m = Some tracks \<longrightarrow> (\<forall>t \<in> set tracks. ended t))
   \<and> fst (endCall (fst (endCall s))) = fst (endCall s)"
proof -
  have idem: "fst (endCall (fst (endCall s))) = fst (endCall s)"
    by (simp add: endCall_fst split: option.splits)
  have sock: "\<forall>i w. wsRef s = Some i \<longrightarrow> lookup (sockets (fst (endCall s))) i = Some w \<longrightarrow>
          readyState w = CLOSING \<or> readyState w = CLOSED"
    using ws_close_closed by (auto simp: endCall_fst lookup_def map_at_def split: if_splits)
  have trk: "\<forall>m tracks. mediaStreamRef s = Some m \<longrightarrow>
          lookup (streams (fst (endCall s))) m = Some tracks \<longrightarrow> (\<forall>t \<in> set tracks. ended t)"
    by (auto simp: endCall_fst lookup_def map_at_def split: if_splits)
  show ?thesis using idem sock trk
    by (simp add: endCall_fst idleCallState_def)
qed

theorem endCall_resets_session_witness:
  "wsRef streaming = Some 0
   \<and> map_option readyState (lookup (sockets (fst (endCall streaming))) 0) = Some CLOSING
   \<and> mediaStreamRef streaming = Some 0
   \<and> lookup (streams (fst (endCall streaming))) 0
       = Some [\<lparr>kind = AudioTrack, enabled = True, ended = True\<rparr>]
   \<and> status (callState (fst (endCall streaming))) = Idle
   \<and> wsRef (fst (endCall streaming)) = None
   \<and> fst (endCall (fst (endCall streaming))) = fst (endCall streaming)"
  using endCall_resets_session [of streaming]
  by (simp add: streaming_eq endCall_fst lookup_def map_at_def ws_close_def mic_def)

subsection \<open>The transcript\<close>

lemma deliver_Cons: "deliver i ((d, now) # msgs) = WsMessage i (Json d) now # deliver i msgs"
  by (simp add: deliver_def)

lemma transcriptOf_Cons:
  "transcriptOf ((d, now) # msgs) =
     (case parts d of None \<Rightarrow> [] | Some ps \<Rightarrow> newEntries ps now) @ transcriptOf msgs"
  by (simp add: transcriptOf_def)

lemma deliver_transcript:
  "lookup (sockets s) i = Some w \<Longrightarrow> readyState w = OPEN \<Longrightarrow>
   conversation (fst (run b (deliver i msgs) (s, tr))) = conversation s @ transcriptOf msgs"
proof (induction msgs arbitrary: s tr)
  case Nil
  then show ?case by (simp add: deliver_def transcriptOf_def)
next
  case (Cons x msgs)
  obtain d now where x: "x = (d, now)" by (cases x)
  let ?s1 = "fst (step b (WsMessage i (Json d) now) s)"
  have sock: "sockets ?s1 = sockets s"
    using Cons.prems by (simp add: fst_step ws_onmessage_json)
  have conv: "conversation ?s1 =
      conversation s @ (case parts d of None \<Rightarrow> [] | Some ps \<Rightarrow> newEntries ps now)"
    using Cons.prems by (simp add: fst_step ws_onmessage_json)
  have "conversation
          (fst (run b (deliver i msgs) (?s1, tr @ snd (step b (WsMessage i (Json d) now) s))))
        = conversation ?s1 @ transcriptOf msgs"
    using Cons.IH [of ?s1] Cons.prems sock by simp
  then show ?case
    using x conv by (simp add: deliver_Cons transcriptOf_Cons split_def Let_def)
qed

lemma playAudioResponse_no_request:
  "count_list (snd (playAudioResponse b d m s)) (Console ''Playing audio response'') = 0"
  using tryTypes_no_request [of b "supportedTypes m" None]
  by (auto simp: playAudioResponse_def split_def Let_def)

lemma playAudioResponse_playsFirst:
  assumes "playsFirst b d"
  shows "played (snd (playAudioResponse b d m s)) = [''audio/mp3'']"
proof -
  have ok: "atob_ok b d" using assms by (simp add: playsFirst_def)
  have 1: "played (snd (playAudioResponse b d m s))
      = filter (callsPlay b) (visited b (supportedTypes m))"
    by (simp add: playAudioResponse_snd [OF ok] tryTypes_played)
  have "\<not> throwsSync b ''audio/mp3''" "callsPlay b ''audio/mp3''"
    using assms by (auto simp: playsFirst_def throwsSync_def callsPlay_def)
  then have 2: "filter (callsPlay b) (visited b (supportedTypes m)) = [''audio/mp3'']"
    by (simp add: supportedTypes_def visited_Cons)
  show ?thesis by (simp only: 1 2)
qed

lemma findAudio_first: "\<exists>p \<in> set ps. isAudio p \<Longrightarrow> \<exists>d m. findAudio ps = Some (d, m)"
proof -
  assume "\<exists>p \<in> set ps. isAudio p"
  then obtain p where "find isAudio ps = Some p" "isAudio p"
    using find_first [of ps isAudio] by auto
  then show ?thesis
    by (auto simp: findAudio_def isAudio_def split: option.splits)
qed

lemma newEntries_one:
  "\<exists>p \<in> set ps. hasText p \<Longrightarrow>
   \<exists>txt. txt \<noteq> [] \<and> newEntries ps now = [\<lparr>speaker = AI, message = txt, timestamp = now\<rparr>]"
proof -
  assume "\<exists>p \<in> set ps. hasText p"
  then obtain p where "find hasText ps = Some p" "hasText p"
    using find_first [of ps hasText] by auto
  then show ?thesis
    by (auto simp: newEntries_def hasText_def split: option.splits)
qed

lemma onServerContent_snd:
  assumes "newEntries ps now \<noteq> []" and "findAudio ps = Some (d, m)" and "speakerEnabled cs"
  shows "snd (onServerContent b cs ps now s) =
     [Console ''Adding AI message:'', Console ''Playing audio response'']
     @ snd (playAudioResponse b d m (s\<lparr>conversation := conversation s @ newEntries ps now\<rparr>))"
  using assms
  by (auto simp: onServerContent_def newEntries_def split_def Let_def split: option.splits)

lemma ws_onmessage_both:
  assumes "newEntries ps now \<noteq> []" and "findAudio ps = Some (d, m)" and "speakerEnabled cs"
  shows "snd (ws_onmessage b cs (Json \<lparr>parts = Some ps, setupComplete = f\<rparr>) now s) =
     [Console ''Received WebSocket message:'', Console ''Parsed JSON data:'',
      Console ''Adding AI message:'', Console ''Playing audio response'']
     @ snd (playAudioResponse b d m (s\<lparr>conversation := conversation s @ newEntries ps now\<rparr>))
     @ (if f then [Console ''Setup completed''] else [])"
  by (simp add: ws_onmessage_def split_def Let_def onServerContent_snd [OF assms]
        onSetupComplete_shape)

text \<open>
  Claim C8.  First part: when a sequence of text frames arrives on an open socket, the
  transcript afterwards is the transcript before followed by the entries of those frames,
  frame by frame in arrival order (a frame contributes the text of its first part with
  non-empty text, if it has one).  Second part: in every state reached by a run from the
  mounted component, with the speaker enabled, a message on an open socket that carries
  a part with non-empty text and an inline part whose type starts with \<^verbatim>\<open>audio/\<close> appends
  exactly one entry to the transcript and requests playback exactly once; and in a browser
  that decodes the payload and starts the first candidate, that is exactly one \<^verbatim>\<open>play()\<close>.
  (The handler reads \<^verbatim>\<open>speakerEnabled\<close> of its closure; \<open>closuresHear_run\<close> shows that it
  is true in every reachable state.)
\<close>

theorem transcript_in_arrival_order_one_entry_one_playback:
  "(lookup (sockets s) i = Some w \<and> readyState w = OPEN \<longrightarrow>
      conversation (fst (run b (deliver i msgs) (s, tr))) = conversation s @ transcriptOf msgs)
   \<and> (s = fst (run b es (init, [])) \<and> lookup (sockets s) i = Some w \<and> readyState w = OPEN
        \<and> speakerEnabled (callState s)
        \<and> (\<exists>p \<in> set ps. hasText p) \<and> (\<exists>p \<in> set ps. isAudio p) \<longrightarrow>
      (let r = step b (WsMessage i (Json \<lparr>parts = Some ps, setupComplete = f\<rparr>) now) s
       in (\<exists>txt. txt \<noteq> [] \<and>
             conversation (fst r)
               = conversation s @ [\<lparr>speaker = AI, message = txt, timestamp = now\<rparr>])
          \<and> count_list (snd r) (Console ''Playing audio response'') = 1
          \<and> (\<forall>d m. findAudio ps = Some (d, m) \<longrightarrow> playsFirst b d \<longrightarrow>
                length (played (snd r)) = 1)))"
proof (intro conjI impI)
  assume "lookup (sockets s) i = Some w \<and> readyState w = OPEN"
  then show "conversation (fst (run b (deliver i msgs) (s, tr)))
      = conversation s @ transcriptOf msgs"
    using deliver_transcript by blast
next
  assume a: "s = fst (run b es (init, [])) \<and> lookup (sockets s) i = Some w \<and> readyState w = OPEN
        \<and> speakerEnabled (callState s)
        \<and> (\<exists>p \<in> set ps. hasText p) \<and> (\<exists>p \<in> set ps. isAudio p)"
  let ?msg = "Json \<lparr>parts = Some ps, setupComplete = f\<rparr>"
  let ?r = "step b (WsMessage i ?msg now) s"
  from a have reach: "s = fst (run b es (init, []))" by blast
  from a have lk: "lookup (sockets s) i = Some w" by blast
  from a have opn: "readyState w = OPEN" by blast
  from a have tx: "\<exists>p \<in> set ps. hasText p" by blast
  from a have ap: "\<exists>p \<in> set ps. isAudio p" by blast
  have "closuresHear s" unfolding reach by (rule closuresHear_run)
  then have "list_all (\<lambda>w. speakerEnabled (ws_closure w)) (sockets s)"
    by (simp add: closuresHear_def hear0_def)
  then have cl: "speakerEnabled (ws_closure w)"
    using lk by (rule lookup_list_all)
  obtain body where body: "body \<noteq> []"
      "newEntries ps now = [\<lparr>speaker = AI, message = body, timestamp = now\<rparr>]"
    using tx newEntries_one [of ps now] by blast
  obtain d m where au: "findAudio ps = Some (d, m)"
    using ap findAudio_first [of ps] by blast
  have ne: "newEntries ps now \<noteq> []" using body by simp
  have d: "dispatch b (WsMessage i ?msg now) s = ws_onmessage b (ws_closure w) ?msg now s"
    using lk opn by simp
  have conv: "conversation (fst ?r)
      = conversation s @ [\<lparr>speaker = AI, message = body, timestamp = now\<rparr>]"
    by (simp only: fst_step d) (simp add: ws_onmessage_json body)
  have acts: "snd ?r =
     [Console ''Received WebSocket message:'', Console ''Parsed JSON data:'',
      Console ''Adding AI message:'', Console ''Playing audio response'']
     @ snd (playAudioResponse b d m (s\<lparr>conversation := conversation s @ newEntries ps now\<rparr>))
     @ (if f then [Console ''Setup completed''] else [])"
    by (simp only: snd_step d ws_onmessage_both [OF ne au cl])
  have once: "count_list (snd ?r) (Console ''Playing audio response'') = 1"
    by (simp add: acts playAudioResponse_no_request)
  have play: "\<forall>d' m'. findAudio ps = Some (d', m') \<longrightarrow> playsFirst b d' \<longrightarrow>
      length (played (snd ?r)) = 1"
    by (auto simp: au acts playAudioResponse_playsFirst)
  show "let r = step b (WsMessage i ?msg now) s
       in (\<exists>txt. txt \<noteq> [] \<and>
             conversation (fst r)
               = conversation s @ [\<lparr>speaker = AI, message = txt, timestamp = now\<rparr>])
          \<and> count_list (snd r) (Console ''Playing audio response'') = 1
          \<and> (\<forall>d m. findAudio ps = Some (d, m) \<longrightarrow> playsFirst b d \<longrightarrow>
                length (played (snd r)) = 1)"
    unfolding Let_def using body(1) conv once play by blast
qed

theorem transcript_in_arrival_order_one_entry_one_playback_witness:
  "lookup (sockets opened) 0 = Some \<lparr>readyState = OPEN, ws_closure = idleCallState\<rparr>
   \<and> readyState \<lparr>readyState = OPEN, ws_closure = idleCallState\<rparr> = OPEN
   \<and> conversation
        (fst (run chrome
                (deliver 0
                   [(content [textPart ''one''], 10), (setupCompleteMsg, 15),
                    (content [textPart ''two'', textPart ''three''], 20)])
                (opened, [])))
       = [greeting 1000, \<lparr>speaker = AI, message = ''one'', timestamp = 10\<rparr>,
          \<lparr>speaker = AI, message = ''two'', timestamp = 20\<rparr>]
   \<and> opened = fst (run chrome opening_call (init, []))
   \<and> speakerEnabled (callState opened)
   \<and> hasText (textPart ''hello'') \<and> isAudio (audioPart ''audio/pcm'' ''AAAA'')
   \<and> playsFirst chrome ''AAAA''
   \<and> count_list
        (snd (step chrome
                (WsMessage 0
                   (Json \<lparr>parts = Some [textPart ''hello'', audioPart ''audio/pcm'' ''AAAA''],
                          setupComplete = False\<rparr>) 30)
                opened))
        (Console ''Playing audio response'') = 1
   \<and> length
        (played
           (snd (step chrome
                   (WsMessage 0
                      (Json \<lparr>parts = Some [textPart ''hello'', audioPart ''audio/pcm'' ''AAAA''],
                             setupComplete = False\<rparr>) 30)
                   opened))) = 1"
proof -
  let ?w = "\<lparr>readyState = OPEN, ws_closure = idleCallState\<rparr>"
  let ?msgs = "[(content [textPart ''one''], 10), (setupCompleteMsg, 15),
                (content [textPart ''two'', textPart ''three''], 20)]"
  let ?ps = "[textPart ''hello'', audioPart ''audio/pcm'' ''AAAA'']"
  have h1: "lookup (sockets opened) 0 = Some ?w \<and> readyState ?w = OPEN"
    by (simp add: opened_eq lookup_def)
  have h2: "opened = fst (run chrome opening_call (init, []))"
    by (simp add: opened_def)
  have h3: "speakerEnabled (callState opened)" by (simp add: opened_eq)
  have h4: "hasText (textPart ''hello'')" "isAudio (audioPart ''audio/pcm'' ''AAAA'')"
    by (simp_all add: hasText_def isAudio_def textPart_def audioPart_def)
  have h5: "playsFirst chrome ''AAAA''" by (simp add: playsFirst_def chrome_def)
  have h6: "findAudio ?ps = Some (''AAAA'', ''audio/pcm'')"
    by (simp add: findAudio_def isAudio_def textPart_def audioPart_def)
  have t: "transcriptOf ?msgs
      = [\<lparr>speaker = AI, message = ''one'', timestamp = 10\<rparr>,
         \<lparr>speaker = AI, message = ''two'', timestamp = 20\<rparr>]"
    by (simp add: transcriptOf_def newEntries_def hasText_def content_def textPart_def
          setupCompleteMsg_def)
  have c: "conversation opened = [greeting 1000]" by (simp add: opened_eq)
  note inst = transcript_in_arrival_order_one_entry_one_playback
               [of opened 0 ?w chrome ?msgs "[]" opening_call ?ps False 30]
  from inst h1 have "conversation (fst (run chrome (deliver 0 ?msgs) (opened, [])))
      = conversation opened @ transcriptOf ?msgs"
    by blast
  then have a: "conversation (fst (run chrome (deliver 0 ?msgs) (opened, [])))
      = [greeting 1000, \<lparr>speaker = AI, message = ''one'', timestamp = 10\<rparr>,
         \<lparr>speaker = AI, message = ''two'', timestamp = 20\<rparr>]"
    by (simp only: t c append_Cons append_Nil)
  have hyp: "opened = fst (run chrome opening_call (init, []))
      \<and> lookup (sockets opened) 0 = Some ?w \<and> readyState ?w = OPEN
      \<and> speakerEnabled (callState opened)
      \<and> (\<exists>p \<in> set ?ps. hasText p) \<and> (\<exists>p \<in> set ?ps. isAudio p)"
    using h1 h2 h3 h4 by simp
  from inst hyp h5 h6 have b:
    "count_list
        (snd (step chrome (WsMessage 0 (Json \<lparr>parts = Some ?ps, setupComplete = False\<rparr>) 30)
                opened))
        (Console ''Playing audio response'') = 1
     \<and> length
        (played
           (snd (step chrome (WsMessage 0 (Json \<lparr>parts = Some ?ps, setupComplete = False\<rparr>) 30)
                   opened))) = 1"
    unfolding Let_def by blast
  from h1 a h2 h3 h4 h5 b show ?thesis by blast
qed

subsection \<open>startCall with the permission denied\<close>

text \<open>
  Claim C9.  When the start button is enabled and pressed in a rendered state (the
  memoised \<^verbatim>\<open>connectToLiveAPI\<close> is up to date, as after every step), and the permission query
  answers \<^verbatim>\<open>denied\<close>, the operation emits exactly one notification (permission denied) and
  leaves the whole state as it was before the press: dialog, status, start time,
  transcript, refs, streams and sockets.  More generally, whenever the \<^verbatim>\<open>denied\<close> answer
  reaches a waiting \<open>startCall\<close>, the only change is that this continuation is gone.
\<close>

theorem startCall_denied_changes_nothing:
  "(\<not> isActive (callState s) \<and> speakerEnabled (connect_cs s) = speakerEnabled (callState s) \<longrightarrow>
      run b [StartCallClick, Settle (length (pending s)) (PermissionStatus Denied) now] (s, tr)
        = (s, tr @ [Notify PermissaoNegada]))
   \<and> (lookup (pending s) k = Some (PermissionQuery cs) \<longrightarrow>
      dispatch b (Settle k (PermissionStatus Denied) now) s
        = (s\<lparr>pending := remove_at k (pending s)\<rparr>, [Notify PermissaoNegada]))"
proof (intro conjI impI)
  assume a: "\<not> isActive (callState s)
      \<and> speakerEnabled (connect_cs s) = speakerEnabled (callState s)"
  let ?s1 = "s\<lparr>pending := pending s @ [PermissionQuery (connect_cs s)]\<rparr>"
  have r0: "render s = s" using a by (simp add: render_def)
  have r1: "render ?s1 = ?s1" using a by (simp add: render_def)
  have 1: "step b StartCallClick s = (?s1, [])"
    using a r1 by (simp add: step_def startCall_def)
  have 2: "step b (Settle (length (pending s)) (PermissionStatus Denied) now) ?s1
      = (s, [Notify PermissaoNegada])"
    using a r0 by (simp add: step_def lookup_last remove_at_last startCall_permission_def)
  show "run b [StartCallClick, Settle (length (pending s)) (PermissionStatus Denied) now] (s, tr)
        = (s, tr @ [Notify PermissaoNegada])"
    by (simp add: 1 2)
next
  assume "lookup (pending s) k = Some (PermissionQuery cs)"
  then show "dispatch b (Settle k (PermissionStatus Denied) now) s
        = (s\<lparr>pending := remove_at k (pending s)\<rparr>, [Notify PermissaoNegada])"
    by (simp add: startCall_permission_def)
qed

theorem startCall_denied_changes_nothing_witness:
  "\<not> isActive (callState init)
   \<and> speakerEnabled (connect_cs init) = speakerEnabled (callState init)
   \<and> run chrome [StartCallClick, Settle 0 (PermissionStatus Denied) 500] (init, [])
       = (init, [Notify PermissaoNegada])
   \<and> showCallModal (fst (run chrome [StartCallClick, Settle 0 (PermissionStatus Denied) 500]
                            (init, []))) = False
   \<and> lookup (pending (fst (startCall init))) 0 = Some (PermissionQuery idleCallState)
   \<and> dispatch chrome (Settle 0 (PermissionStatus Denied) 500) (fst (startCall init))
       = (init, [Notify PermissaoNegada])"
proof -
  have h: "\<not> isActive (callState init)
      \<and> speakerEnabled (connect_cs init) = speakerEnabled (callState init)"
    by (simp add: init_def idleCallState_def)
  have l: "length (pending init) = 0" by (simp add: init_def)
  from startCall_denied_changes_nothing [of init chrome 500 "[]" 0 idleCallState] h
  have 1: "run chrome [StartCallClick, Settle 0 (PermissionStatus Denied) 500] (init, [])
       = (init, [Notify PermissaoNegada])"
    unfolding l by simp
  have k: "lookup (pending (fst (startCall init))) 0 = Some (PermissionQuery idleCallState)"
    by (simp add: startCall_def init_def lookup_def)
  have undo: "(fst (startCall init))\<lparr>pending := remove_at 0 (pending (fst (startCall init)))\<rparr>
      = init"
    by (simp add: startCall_def init_def remove_at_def)
  from startCall_denied_changes_nothing
         [of "fst (startCall init)" chrome 500 "[]" 0 idleCallState] k
  have 2: "dispatch chrome (Settle 0 (PermissionStatus Denied) 500) (fst (startCall init))
       = (init, [Notify PermissaoNegada])"
    unfolding undo by blast
  have 3: "showCallModal (fst (run chrome [StartCallClick, Settle 0 (PermissionStatus Denied) 500]
                            (init, []))) = False"
    unfolding 1 by (simp add: init_def)
  from h 1 2 3 k show ?thesis by blast
qed

subsection \<open>toggleMute\<close>

lemma toggleMute_alt:
  "toggleMute v s =
     s\<lparr>callState := (callState s)\<lparr>isMuted := \<not> isMuted (callState s)\<rparr>,
       streams := (case mediaStreamRef s of None \<Rightarrow> streams s
                   | Some m \<Rightarrow> map_at m (setEnabled v) (streams s))\<rparr>"
  by (simp add: toggleMute_def setEnabled_def [abs_def] Let_def split: option.splits)

lemma setEnabled_twice: "setEnabled v (setEnabled u tracks) = setEnabled v tracks"
  by (simp add: setEnabled_def)

lemma setEnabled_id:
  "\<forall>t \<in> set tracks. kind t = AudioTrack \<longrightarrow> enabled t = v \<Longrightarrow> setEnabled v tracks = tracks"
  by (induction tracks) (auto simp: setEnabled_def)

text \<open>
  Claim C10, as amended.  On a state whose device ref holds a stream, one press of the
  mute button (whose callback reads the rendered \<^verbatim>\<open>isMuted\<close>) negates \<^verbatim>\<open>isMuted\<close> and sets
  the \<^verbatim>\<open>enabled\<close> flag of every audio track of that stream to the value \<^verbatim>\<open>isMuted\<close> had before
  the press, which is the negation of its new value: the track is disabled exactly when
  the session is muted.  Two presses in a row restore \<^verbatim>\<open>isMuted\<close> and leave every audio
  track's flag equal to the negation of \<^verbatim>\<open>isMuted\<close>; they restore the flags, and with them
  the whole state, when before the presses every audio track was enabled exactly when the
  session was not muted.
\<close>

theorem toggleMute_tracks_follow_previous_mute:
  "mediaStreamRef s = Some m \<and> lookup (streams s) m = Some tracks \<longrightarrow>
     (let s1 = toggleMute (isMuted (callState s)) s;
          s2 = toggleMute (isMuted (callState s1)) s1
      in isMuted (callState s1) = (\<not> isMuted (callState s))
         \<and> lookup (streams s1) m = Some (setEnabled (isMuted (callState s)) tracks)
         \<and> (\<forall>t \<in> set (setEnabled (isMuted (callState s)) tracks).
               kind t = AudioTrack \<longrightarrow> enabled t = (\<not> isMuted (callState s1)))
         \<and> isMuted (callState s2) = isMuted (callState s)
         \<and> lookup (streams s2) m = Some (setEnabled (\<not> isMuted (callState s)) tracks)
         \<and> ((\<forall>t \<in> set tracks. kind t = AudioTrack \<longrightarrow> enabled t = (\<not> isMuted (callState s)))
               \<longrightarrow> s2 = s))"
proof
  assume a: "mediaStreamRef s = Some m \<and> lookup (streams s) m = Some tracks"
  let ?v = "isMuted (callState s)"
  let ?s1 = "toggleMute ?v s"
  let ?s2 = "toggleMute (isMuted (callState ?s1)) ?s1"
  have m1: "isMuted (callState ?s1) = (\<not> ?v)" by (simp add: toggleMute_alt)
  have st1: "lookup (streams ?s1) m = Some (setEnabled ?v tracks)"
    using a by (simp add: toggleMute_alt lookup_map_at_same)
  have en1: "\<forall>t \<in> set (setEnabled ?v tracks).
      kind t = AudioTrack \<longrightarrow> enabled t = (\<not> isMuted (callState ?s1))"
    by (auto simp: m1 setEnabled_def)
  have m2: "isMuted (callState ?s2) = ?v" by (simp add: toggleMute_alt)
  have st2: "lookup (streams ?s2) m = Some (setEnabled (\<not> ?v) tracks)"
    using a by (simp add: toggleMute_alt lookup_map_at_same map_at_twice setEnabled_twice comp_def)
  have s2: "?s2 = s\<lparr>streams := map_at m (setEnabled (\<not> ?v)) (streams s)\<rparr>"
    using a by (simp add: toggleMute_alt map_at_twice comp_def setEnabled_twice)
  have restore: "(\<forall>t \<in> set tracks. kind t = AudioTrack \<longrightarrow> enabled t = (\<not> ?v)) \<longrightarrow> ?s2 = s"
  proof
    assume "\<forall>t \<in> set tracks. kind t = AudioTrack \<longrightarrow> enabled t = (\<not> ?v)"
    then have "setEnabled (\<not> ?v) tracks = tracks" by (rule setEnabled_id)
    then have "map_at m (setEnabled (\<not> ?v)) (streams s) = streams s"
      using a map_at_id by fastforce
    then show "?s2 = s" by (simp add: s2)
  qed
  show "let s1 = toggleMute (isMuted (callState s)) s;
          s2 = toggleMute (isMuted (callState s1)) s1
      in isMuted (callState s1) = (\<not> isMuted (callState s))
         \<and> lookup (streams s1) m = Some (setEnabled (isMuted (callState s)) tracks)
         \<and> (\<forall>t \<in> set (setEnabled (isMuted (callState s)) tracks).
               kind t = AudioTrack \<longrightarrow> enabled t = (\<not> isMuted (callState s1)))
         \<and> isMuted (callState s2) = isMuted (callState s)
         \<and> lookup (streams s2) m = Some (setEnabled (\<not> isMuted (callState s)) tracks)
         \<and> ((\<forall>t \<in> set tracks. kind t = AudioTrack \<longrightarrow> enabled t = (\<not> isMuted (callState s)))
               \<longrightarrow> s2 = s)"
    unfolding Let_def using m1 st1 en1 m2 st2 restore by blast
qed

theorem toggleMute_tracks_follow_previous_mute_witness:
  "mediaStreamRef streaming = Some 0 \<and> lookup (streams streaming) 0 = Some mic
   \<and> isMuted (callState (toggleMute (isMuted (callState streaming)) streaming))
   \<and> lookup (streams (toggleMute (isMuted (callState streaming)) streaming)) 0
       = Some [\<lparr>kind = AudioTrack, enabled = False, ended = False\<rparr>]
   \<and> toggleMute
        (isMuted (callState (toggleMute (isMuted (callState streaming)) streaming)))
        (toggleMute (isMuted (callState streaming)) streaming)
       = streaming"
proof -
  have h: "mediaStreamRef streaming = Some 0 \<and> lookup (streams streaming) 0 = Some mic"
    by (simp add: streaming_eq lookup_def)
  have v: "\<not> isMuted (callState streaming)" by (simp add: streaming_eq)
  have c: "\<forall>t \<in> set mic. kind t = AudioTrack \<longrightarrow> enabled t = (\<not> isMuted (callState streaming))"
    by (simp add: streaming_eq mic_def)
  have e: "setEnabled (isMuted (callState streaming)) mic
      = [\<lparr>kind = AudioTrack, enabled = False, ended = False\<rparr>]"
    by (simp add: streaming_eq setEnabled_def mic_def)
  from toggleMute_tracks_follow_previous_mute [of streaming 0 mic] h c
  have f: "isMuted (callState (toggleMute (isMuted (callState streaming)) streaming))
          = (\<not> isMuted (callState streaming))
      \<and> lookup (streams (toggleMute (isMuted (callState streaming)) streaming)) 0
          = Some (setEnabled (isMuted (callState streaming)) mic)
      \<and> toggleMute
          (isMuted (callState (toggleMute (isMuted (callState streaming)) streaming)))
          (toggleMute (isMuted (callState streaming)) streaming)
         = streaming"
    unfolding Let_def by blast
  from f v have g: "isMuted (callState (toggleMute (isMuted (callState streaming)) streaming))"
    by blast
  from f have k: "lookup (streams (toggleMute (isMuted (callState streaming)) streaming)) 0
      = Some [\<lparr>kind = AudioTrack, enabled = False, ended = False\<rparr>]"
    unfolding e by blast
  from h f g k show ?thesis by blast
qed

text \<open>
  Claim C10 as stated fails in its last part.  In \<open>muted_before_stream\<close> the user presses
  the mute button while the microphone is still being acquired: the stream then arrives
  with its track enabled although the session is muted.  From that state two presses of
  the mute button restore \<^verbatim>\<open>isMuted\<close> but not the track's flag, which was true and is now
  false.
\<close>

theorem two_mute_presses_do_not_restore_track:
  "isMuted (callState (fst (run chrome muted_before_stream (init, []))))
   \<and> mediaStreamRef (fst (run chrome muted_before_stream (init, []))) = Some 0
   \<and> streams (fst (run chrome muted_before_stream (init, [])))
       = [[\<lparr>kind = AudioTrack, enabled = True, ended = False\<rparr>]]
   \<and> isMuted
       (callState
          (fst (run chrome (muted_before_stream @ [ToggleMuteClick, ToggleMuteClick]) (init, []))))
   \<and> streams
        (fst (run chrome (muted_before_stream @ [ToggleMuteClick, ToggleMuteClick]) (init, [])))
       = [[\<lparr>kind = AudioTrack, enabled = False, ended = False\<rparr>]]"
  by code_simp

end
